theory Spec2Isabelle
  imports Main
begin

section \<open>DarkWS: a shallow embedding of src/index.ts\<close>

text \<open>
  The class \<open>DarkWS\<close> is modelled as a record of its private fields together with the
  part of the JavaScript environment its methods act on: the timers created by
  \<open>setTimeout\<close> and \<open>setInterval\<close>, the promises it creates, what was handed to
  \<open>socket.send\<close>, the console, and the trace of interceptor invocations.

  JavaScript runs every socket handler, timer callback and promise reaction to completion,
  one after the other. Each of them is a function on the state here; an exception
  leaving a callback is the first component of its result.

  Conventions. Handles of timers and intervals, and promises, are numbered by position in
  lists that only grow (a cleared timer keeps its slot, holding \<open>None\<close>), so a handle is
  never reused. Numbers of the configuration are integers. Subscribed handlers are
  identified by a number (their identity); what a handler does when invoked is given by
  \<open>behaviour\<close>: it returns normally or throws. Handlers do not call back into the client
  while they run (they do not subscribe, unsubscribe, send or request). The URL of the
  socket is not modelled: a socket is a serial number and a ready state.
\<close>

subsection \<open>JSON values, exceptions\<close>

datatype json =
  JNull | JBool bool | JNum int | JStr string | JArr "json list" | JObj "(string \<times> json) list"

text \<open>What can be thrown. The exceptions the engine raises in the modelled code are a
  \<open>TypeError\<close> (reading a property of \<open>null\<close> or \<open>undefined\<close>, calling what is not a
  function) and the \<open>InvalidStateError\<close> of a socket that is not open yet; the text of
  their \<open>message\<close> is the engine's and is not modelled. \<open>JSON.parse\<close> raises a
  \<open>SyntaxError\<close>. A handler may throw any value: a \<open>SyntaxError\<close>; any other object whose
  \<open>message\<close> is a string (\<open>Error m\<close>, with that string); \<open>null\<close> or \<open>undefined\<close>
  (\<open>Thrown_nullish\<close>); or any other value (\<open>Thrown_other\<close>), whose \<open>message\<close>
  property is not a string (it is \<open>undefined\<close> for a string, a number or a plain
  object).\<close>

datatype type_error = Read_of_nullish | Reject_not_a_function | Resolve_not_a_function

datatype exn =
  SyntaxError | TypeError type_error | InvalidStateError | Error string
  | Thrown_nullish | Thrown_other

text \<open>Property access \<open>v.name\<close> for a name that no builtin prototype defines
  (\<open>error\<close> and \<open>code\<close> are such names): \<open>None\<close> is \<open>undefined\<close>; reading a property of
  \<open>null\<close> raises a \<open>TypeError\<close>. A \<open>JObj\<close> lists the own properties of a parsed object.\<close>

fun get_prop :: "json \<Rightarrow> string \<Rightarrow> exn + json option" where
  "get_prop JNull name = Inl (TypeError Read_of_nullish)"
| "get_prop (JObj kvs) name = Inr (map_of kvs name)"
| "get_prop v name = Inr None"

fun truthy :: "json \<Rightarrow> bool" where
  "truthy JNull = False"
| "truthy (JBool b) = b"
| "truthy (JNum n) = (n \<noteq> 0)"
| "truthy (JStr s) = (s \<noteq> [])"
| "truthy (JArr xs) = True"
| "truthy (JObj kvs) = True"

text \<open>The test \<open>data.error?.code\<close>: the optional chain stops at \<open>undefined\<close> and
  \<open>null\<close>.\<close>

definition error_code :: "json \<Rightarrow> exn + bool" where
  "error_code data =
     (case get_prop data ''error'' of
        Inl e \<Rightarrow> Inl e
      | Inr None \<Rightarrow> Inr False
      | Inr (Some JNull) \<Rightarrow> Inr False
      | Inr (Some err) \<Rightarrow>
          (case get_prop err ''code'' of
             Inl e \<Rightarrow> Inl e
           | Inr None \<Rightarrow> Inr False
           | Inr (Some c) \<Rightarrow> Inr (truthy c)))"

subsection \<open>Array and string builtins used by the class\<close>

text \<open>\<open>Array.prototype.indexOf\<close>: the first index holding the element, or \<open>-1\<close>.\<close>

fun indexOf :: "'a list \<Rightarrow> 'a \<Rightarrow> int" where
  "indexOf [] x = - 1"
| "indexOf (y # ys) x =
     (if y = x then 0 else (let i = indexOf ys x in if i < 0 then - 1 else i + 1))"

text \<open>\<open>Array.prototype.splice(start, deleteCount)\<close> with no inserted items: a negative
  \<open>start\<close> counts from the end of the array.\<close>

definition splice_js :: "'a list \<Rightarrow> int \<Rightarrow> int \<Rightarrow> 'a list" where
  "splice_js xs start deleteCount =
     (let len = int (length xs);
          actualStart = (if start < 0 then max (len + start) 0 else min start len);
          actualDeleteCount = min (max deleteCount 0) (len - actualStart)
      in take (nat actualStart) xs @ drop (nat (actualStart + actualDeleteCount)) xs)"

text \<open>\<open>String.prototype.split(separator, limit)\<close> for a one-character separator: the
  text is cut at every separator and the first \<open>limit\<close> pieces are returned.\<close>

fun pieces :: "char \<Rightarrow> string \<Rightarrow> string list" where
  "pieces c [] = [[]]"
| "pieces c (x # xs) =
     (if x = c then [] # pieces c xs
      else (case pieces c xs of [] \<Rightarrow> [[x]] | p # ps \<Rightarrow> (x # p) # ps))"

definition split :: "string \<Rightarrow> char \<Rightarrow> nat \<Rightarrow> string list" where
  "split s c limit = take limit (pieces c s)"

text \<open>\<open>String.prototype.substring(start, end)\<close>: both indices are clamped to the length
  and swapped when out of order.\<close>

definition substring :: "string \<Rightarrow> nat \<Rightarrow> nat \<Rightarrow> string" where
  "substring s a b =
     (let a' = min a (length s); b' = min b (length s);
          lo = min a' b'; hi = max a' b'
      in take (hi - lo) (drop lo s))"

subsection \<open>The client's state\<close>

datatype category = E_open | E_close | E_error | E_reconnect | E_message | E_broadcast

type_synonym handler = nat

text \<open>The arguments a category's handlers are called with: the raw event, the close event
  (\<open>wasClean\<close>, \<open>code\<close>, \<open>reason\<close>), the attempt number, or the decoded payload with the
  message event (its text).\<close>

datatype arg = Raw_event | Closing bool int string | Attempt int | Payload json string

datatype ready_state = CONNECTING | OPEN | CLOSING | CLOSED

datatype future = Pending | Fulfilled json | Rejected json

text \<open>The two closures stored in \<open>this.requests[key]\<close>. \<open>resolve\<close> is either the
  promise's own \<open>resolve\<close> or the wrapper that first calls \<open>clearTimeout(handle)\<close>;
  \<open>reject\<close> is always the promise's own \<open>reject\<close>.\<close>

datatype resolve_fn = Resolve_direct nat | Resolve_clearing nat nat

datatype resolver = Resolver resolve_fn nat

datatype timer_action = Reconnect_timer | Timeout_timer string nat

text \<open>What is chained behind \<open>_send\<close>: nothing (\<open>send\<close>), the debug line of the
  keepalive, or the registration of a request under its key.\<close>

datatype after_send = Send_done | Ping_handled | Register_request string nat

datatype waiter = Waiter string after_send

datatype conn_promise = Waiting "waiter list" | Opened nat

datatype debug_msg =
  Connected | Connection_closed int string | Connection_aborted int string
  | Reconnecting int | Connection_failed | Error_event | Ping_handled_msg

text \<open>The console: a debug line; \<open>console.warn\<close> with a string; with the message
  the engine gave one of its exceptions; with a value that is not a string.\<close>

datatype log = Debug debug_msg | Warn string | Warn_engine exn | Warn_other

text \<open>The options the modelled methods read. Those the URL is built from (protocol, host,
  port, path) are left out with the URL.\<close>

record options =
  reconnect :: bool
  reconnectTimeout :: int
  reconnectAttempts :: int
  requestTimeout :: int
  debug_opt :: bool

record darkws =
  opts :: options
  socket :: "(nat \<times> ready_state) option"
  requests :: "string \<rightharpoonup> resolver"
  connectingPromise :: "nat option"
  reconnectAttempt :: int
  interceptors :: "category \<Rightarrow> handler list"
  next_socket :: nat
  closed_sockets :: "nat list"
  sent :: "(nat \<times> string) list"
  timers :: "(int \<times> timer_action) option list"
  intervals :: "nat option list"
  conn_promises :: "conn_promise list"
  futures :: "future list"
  calls :: "(handler \<times> category \<times> arg) list"
  console :: "log list"

text \<open>The environment: \<open>JSON.parse\<close> (\<open>None\<close> when it raises a \<open>SyntaxError\<close>),
  \<open>JSON.stringify\<close>, and what each subscribed handler does when it is called.\<close>

record world =
  json_parse :: "string \<Rightarrow> json option"
  json_stringify :: "json \<Rightarrow> string"
  behaviour :: "handler \<Rightarrow> category \<Rightarrow> arg \<Rightarrow> exn option"

definition defaultOptions :: options where
  "defaultOptions =
     \<lparr>reconnect = True, reconnectTimeout = 1000, reconnectAttempts = 120,
      requestTimeout = 1000 * 60 * 5, debug_opt = False\<rparr>"

definition debug :: "debug_msg \<Rightarrow> darkws \<Rightarrow> darkws" where
  "debug m s = (if debug_opt (opts s) then s\<lparr>console := console s @ [Debug m]\<rparr> else s)"

text \<open>Sequencing of two steps, the second skipped when the first raises.\<close>

definition and_then ::
  "exn option \<times> darkws \<Rightarrow> (darkws \<Rightarrow> exn option \<times> darkws) \<Rightarrow> exn option \<times> darkws" where
  "and_then r f = (case r of (None, s) \<Rightarrow> f s | (Some e, s) \<Rightarrow> (Some e, s))"

subsection \<open>Interceptors\<close>

text \<open>\<open>intercept(event, handler)\<close> pushes the handler; the function it returns is
  \<open>unsubscribe event handler\<close>.\<close>

definition intercept :: "category \<Rightarrow> handler \<Rightarrow> darkws \<Rightarrow> darkws" where
  "intercept event h s =
     s\<lparr>interceptors := (interceptors s)(event := interceptors s event @ [h])\<rparr>"

definition unsubscribe :: "category \<Rightarrow> handler \<Rightarrow> darkws \<Rightarrow> darkws" where
  "unsubscribe event h s =
     (let group = interceptors s event
      in s\<lparr>interceptors := (interceptors s)(event := splice_js group (indexOf group h) 1)\<rparr>)"

text \<open>The loop of \<open>callInterceptors\<close>: each handler is called in turn, the call is
  recorded, and the first exception ends the loop and is passed on. The source's
  \<open>for ... of\<close> walks the array itself; as the handlers of this model do not subscribe
  or unsubscribe while they run, the array is the same list throughout the loop. What
  the loop does when a handler changes the array under it is outside this model.\<close>

fun call_each ::
  "world \<Rightarrow> category \<Rightarrow> arg \<Rightarrow> handler list \<Rightarrow> darkws \<Rightarrow> exn option \<times> darkws" where
  "call_each w event a [] s = (None, s)"
| "call_each w event a (h # hs) s =
     (let s1 = s\<lparr>calls := calls s @ [(h, event, a)]\<rparr>
      in case behaviour w h event a of
           Some e \<Rightarrow> (Some e, s1)
         | None \<Rightarrow> call_each w event a hs s1)"

definition callInterceptors ::
  "world \<Rightarrow> category \<Rightarrow> arg \<Rightarrow> darkws \<Rightarrow> exn option \<times> darkws" where
  "callInterceptors w event a s = call_each w event a (interceptors s event) s"

subsection \<open>Connection\<close>

text \<open>\<open>connect()\<close>: an existing socket is closed, then replaced by a new one, which
  starts in the connecting state.\<close>

definition connect :: "darkws \<Rightarrow> darkws" where
  "connect s =
     (let s1 = (case socket s of
                  Some (i, r) \<Rightarrow> s\<lparr>closed_sockets := closed_sockets s @ [i]\<rparr>
                | None \<Rightarrow> s)
      in s1\<lparr>socket := Some (next_socket s1, CONNECTING),
             next_socket := Suc (next_socket s1)\<rparr>)"

text \<open>The constructor: the fields' initial values, then \<open>connect()\<close>.\<close>

definition new_DarkWS :: "options \<Rightarrow> darkws" where
  "new_DarkWS options =
     connect
       \<lparr>opts = options, socket = None, requests = Map.empty, connectingPromise = None,
        reconnectAttempt = 0, interceptors = (\<lambda>event. []), next_socket = 0,
        closed_sockets = [], sent = [], timers = [], intervals = [], conn_promises = [],
        futures = [], calls = [], console = []\<rparr>"

definition onopen :: "world \<Rightarrow> darkws \<Rightarrow> exn option \<times> darkws" where
  "onopen w s = callInterceptors w E_open Raw_event (debug Connected s)"

text \<open>\<open>setTimeout(action, delay)\<close>: the new timer's handle is its position.\<close>

definition setTimeout :: "timer_action \<Rightarrow> int \<Rightarrow> darkws \<Rightarrow> darkws" where
  "setTimeout action delay s = s\<lparr>timers := timers s @ [Some (delay, action)]\<rparr>"

definition clearTimeout :: "nat \<Rightarrow> darkws \<Rightarrow> darkws" where
  "clearTimeout handle s = s\<lparr>timers := (timers s)[handle := None]\<rparr>"

definition onclose :: "world \<Rightarrow> bool \<Rightarrow> int \<Rightarrow> string \<Rightarrow> darkws \<Rightarrow> exn option \<times> darkws" where
  "onclose w wasClean code reason s =
     and_then
       (if wasClean then (None, debug (Connection_closed code reason) s)
        else
          (let s1 = debug (Connection_aborted code reason) s
           in if reconnect (opts s1) \<and> reconnectAttempt s1 < reconnectAttempts (opts s1)
              then
                (let s2 = debug (Reconnecting (reconnectAttempt s1 + 1)) s1;
                     s3 = setTimeout Reconnect_timer (reconnectTimeout (opts s2)) s2;
                     s4 = s3\<lparr>reconnectAttempt := reconnectAttempt s3 + 1\<rparr>
                 in callInterceptors w E_reconnect (Attempt (reconnectAttempt s4)) s4)
              else (None, debug Connection_failed s1)))
       (callInterceptors w E_close (Closing wasClean code reason))"

definition onerror :: "world \<Rightarrow> darkws \<Rightarrow> exn option \<times> darkws" where
  "onerror w s = callInterceptors w E_error Raw_event (debug Error_event s)"

subsection \<open>Waiting for the connection, sending\<close>

text \<open>\<open>socket?.send(data)\<close>: nothing without a socket; a socket still connecting raises;
  an open socket takes the data; a closing or closed one drops it.\<close>

definition socket_send :: "string \<Rightarrow> darkws \<Rightarrow> exn option \<times> darkws" where
  "socket_send data s =
     (case socket s of
        None \<Rightarrow> (None, s)
      | Some (i, r) \<Rightarrow>
          (case r of
             CONNECTING \<Rightarrow> (Some InvalidStateError, s)
           | OPEN \<Rightarrow> (None, s\<lparr>sent := sent s @ [(i, data)]\<rparr>)
           | CLOSING \<Rightarrow> (None, s)
           | CLOSED \<Rightarrow> (None, s)))"

text \<open>The callback \<open>request\<close> chains behind \<open>_send\<close> registers the request, with a
  timeout timer when \<open>requestTimeout\<close> is not zero.\<close>

fun run_after_send :: "after_send \<Rightarrow> darkws \<Rightarrow> darkws" where
  "run_after_send Send_done s = s"
| "run_after_send Ping_handled s = debug Ping_handled_msg s"
| "run_after_send (Register_request key p) s =
     (if requestTimeout (opts s) \<noteq> 0
      then
        (let handle = length (timers s);
             s1 = setTimeout (Timeout_timer key p) (requestTimeout (opts s)) s
         in s1\<lparr>requests := (requests s1)(key \<mapsto> Resolver (Resolve_clearing handle p) p)\<rparr>)
      else s\<lparr>requests := (requests s)(key \<mapsto> Resolver (Resolve_direct p) p)\<rparr>)"

text \<open>The reactions of a resolved connection promise run in the order they were attached:
  first every \<open>socket.send\<close>, then what was chained behind each send that did not
  raise.\<close>

fun send_all :: "waiter list \<Rightarrow> darkws \<Rightarrow> after_send list \<times> darkws" where
  "send_all [] s = ([], s)"
| "send_all (Waiter data k # ws) s =
     (case socket_send data s of
        (None, s1) \<Rightarrow> (let (ks, s2) = send_all ws s1 in (k # ks, s2))
      | (Some e, s1) \<Rightarrow> send_all ws s1)"

definition run_waiters :: "waiter list \<Rightarrow> darkws \<Rightarrow> darkws" where
  "run_waiters ws s = (let (ks, s1) = send_all ws s in fold run_after_send ks s1)"

text \<open>\<open>waitForConnection()\<close>: the pending promise if there is one, else a new promise
  and a new interval polling for it.\<close>

definition waitForConnection :: "darkws \<Rightarrow> nat \<times> darkws" where
  "waitForConnection s =
     (case connectingPromise s of
        Some p \<Rightarrow> (p, s)
      | None \<Rightarrow>
          (let p = length (conn_promises s)
           in (p, s\<lparr>conn_promises := conn_promises s @ [Waiting []],
                     intervals := intervals s @ [Some p],
                     connectingPromise := Some p\<rparr>)))"

text \<open>\<open>_send(data)\<close> with what the caller chains behind it.\<close>

definition private_send :: "string \<Rightarrow> after_send \<Rightarrow> darkws \<Rightarrow> darkws" where
  "private_send data k s =
     (let (p, s1) = waitForConnection s
      in if p < length (conn_promises s1)
         then (case conn_promises s1 ! p of
                 Waiting ws \<Rightarrow>
                   s1\<lparr>conn_promises := (conn_promises s1)[p := Waiting (ws @ [Waiter data k])]\<rparr>
               | Opened i \<Rightarrow> run_waiters [Waiter data k] s1)
         else s1)"

text \<open>The interval's callback, for the interval with handle \<open>h\<close>: a cleared interval
  does not fire.\<close>

definition poll :: "nat \<Rightarrow> darkws \<Rightarrow> darkws" where
  "poll h s =
     (if h < length (intervals s)
      then (case intervals s ! h of
              None \<Rightarrow> s
            | Some p \<Rightarrow>
                (case socket s of
                   Some (i, OPEN) \<Rightarrow>
                     (let s1 = s\<lparr>intervals := (intervals s)[h := None]\<rparr>;
                          ws = (if p < length (conn_promises s1)
                                then (case conn_promises s1 ! p of
                                        Waiting ws \<Rightarrow> ws | Opened j \<Rightarrow> [])
                                else []);
                          s2 = (if p < length (conn_promises s1)
                                then (case conn_promises s1 ! p of
                                        Waiting ws \<Rightarrow>
                                          s1\<lparr>conn_promises := (conn_promises s1)[p := Opened i]\<rparr>
                                      | Opened j \<Rightarrow> s1)
                                else s1);
                          s3 = s2\<lparr>connectingPromise := None\<rparr>
                      in run_waiters ws s3)
                 | _ \<Rightarrow> s))
      else s)"

definition send :: "world \<Rightarrow> json \<Rightarrow> darkws \<Rightarrow> darkws" where
  "send w data s = private_send (''@|'' @ json_stringify w data) Send_done s"

subsection \<open>Requests\<close>

text \<open>\<open>Math.random()\<close> is a number of the interval from 0 (included) to 1 (excluded).
  \<open>toString(26)\<close> writes it in radix 26: \<open>0\<close> for zero, and otherwise \<open>0.\<close> followed by
  the digits of its fraction, each below 26. These digits are the parameter of the model;
  the digit characters are those JavaScript uses for every radix.\<close>

definition digit_char :: "nat \<Rightarrow> char" where
  "digit_char d = ''0123456789abcdefghijklmnopqrstuvwxyz'' ! d"

definition toString26 :: "nat list \<Rightarrow> string" where
  "toString26 ds = (if ds = [] then ''0'' else ''0.'' @ map digit_char ds)"

definition generateKey :: "nat list \<Rightarrow> string" where
  "generateKey random = substring (toString26 random) 2 8"

text \<open>A promise settles once: settling a promise that is not pending does nothing.\<close>

definition settle :: "nat \<Rightarrow> future \<Rightarrow> darkws \<Rightarrow> darkws" where
  "settle p v s =
     (if p < length (futures s) \<and> futures s ! p = Pending
      then s\<lparr>futures := (futures s)[p := v]\<rparr> else s)"

text \<open>The text of an outbound request.\<close>

definition request_frame :: "world \<Rightarrow> string \<Rightarrow> string \<Rightarrow> json option \<Rightarrow> string" where
  "request_frame w key action data =
     key @ ''|'' @ action @ (case data of None \<Rightarrow> [] | Some d \<Rightarrow> ''|'' @ json_stringify w d)"

text \<open>\<open>request(action, data)\<close>: a new pending promise, a key, and the frame handed to
  \<open>_send\<close>; the result is the promise.\<close>

definition request ::
  "world \<Rightarrow> nat list \<Rightarrow> string \<Rightarrow> json option \<Rightarrow> darkws \<Rightarrow> nat \<times> darkws" where
  "request w random action data s =
     (let p = length (futures s);
          s1 = s\<lparr>futures := futures s @ [Pending]\<rparr>;
          key = generateKey random
      in (p, private_send (request_frame w key action data) (Register_request key p) s1))"

definition timeout_error :: json where
  "timeout_error =
     JObj [(''code'', JStr ''timeout''), (''message'', JStr ''Request cancelled by timeout'')]"

text \<open>A timer fires: it leaves the list of pending timers and its callback runs, either
  \<open>connect()\<close> or the timeout of a request. A cleared timer does not fire.\<close>

definition fire_timer :: "nat \<Rightarrow> darkws \<Rightarrow> darkws" where
  "fire_timer h s =
     (if h < length (timers s)
      then (case timers s ! h of
              None \<Rightarrow> s
            | Some (delay, action) \<Rightarrow>
                (let s1 = s\<lparr>timers := (timers s)[h := None]\<rparr>
                 in case action of
                      Reconnect_timer \<Rightarrow> connect s1
                    | Timeout_timer key p \<Rightarrow>
                        settle p (Rejected timeout_error)
                          (s1\<lparr>requests := (requests s1)(key := None)\<rparr>)))
      else s)"

subsection \<open>Inbound messages\<close>

text \<open>\<open>this.requests\<close> is a plain object: reading a key it does not own finds the
  properties of \<open>Object.prototype\<close>.\<close>

definition object_prototype_keys :: "string list" where
  "object_prototype_keys =
     [''constructor'', ''hasOwnProperty'', ''isPrototypeOf'', ''propertyIsEnumerable'',
      ''toLocaleString'', ''toString'', ''valueOf'', ''__proto__'', ''__defineGetter__'',
      ''__defineSetter__'', ''__lookupGetter__'', ''__lookupSetter__'']"

datatype lookup = Absent | Own resolver | Inherited

definition lookup_request :: "darkws \<Rightarrow> string \<Rightarrow> lookup" where
  "lookup_request s key =
     (case requests s key of
        Some r \<Rightarrow> Own r
      | None \<Rightarrow> if key \<in> set object_prototype_keys then Inherited else Absent)"

fun call_resolve :: "resolve_fn \<Rightarrow> json \<Rightarrow> darkws \<Rightarrow> darkws" where
  "call_resolve (Resolve_direct p) data s = settle p (Fulfilled data) s"
| "call_resolve (Resolve_clearing handle p) data s =
     settle p (Fulfilled data) (clearTimeout handle s)"

definition call_reject :: "nat \<Rightarrow> json \<Rightarrow> darkws \<Rightarrow> darkws" where
  "call_reject p data s = settle p (Rejected data) s"

text \<open>The \<open>if (resolver)\<close> block.\<close>

definition settle_request :: "string \<Rightarrow> json \<Rightarrow> darkws \<Rightarrow> exn option \<times> darkws" where
  "settle_request key data s =
     (case lookup_request s key of
        Absent \<Rightarrow> (None, s)
      | Inherited \<Rightarrow>
          (case error_code data of
             Inl e \<Rightarrow> (Some e, s)
           | Inr True \<Rightarrow> (Some (TypeError Reject_not_a_function), s)
           | Inr False \<Rightarrow> (Some (TypeError Resolve_not_a_function), s))
      | Own (Resolver res rej) \<Rightarrow>
          (case error_code data of
             Inl e \<Rightarrow> (Some e, s)
           | Inr c \<Rightarrow>
               (let s1 = (if c then call_reject rej data s else call_resolve res data s)
                in (None, s1\<lparr>requests := (requests s1)(key := None)\<rparr>))))"

text \<open>The body of the \<open>try\<close> block: the destructuring of \<open>split('|', 2)\<close>, the parse
  (of \<open>undefined\<close> when there is no second piece, a \<open>SyntaxError\<close>), the routing.\<close>

definition decode_key :: "string \<Rightarrow> string" where
  "decode_key text = (case split text CHR ''|'' 2 of [] \<Rightarrow> ''@'' | k # rest \<Rightarrow> k)"

definition decode_data :: "string \<Rightarrow> string option" where
  "decode_data text = (case split text CHR ''|'' 2 of k # d # rest \<Rightarrow> Some d | _ \<Rightarrow> None)"

definition try_message :: "world \<Rightarrow> string \<Rightarrow> darkws \<Rightarrow> exn option \<times> darkws" where
  "try_message w text s =
     (let key = decode_key text
      in case (case decode_data text of None \<Rightarrow> None | Some d \<Rightarrow> json_parse w d) of
           None \<Rightarrow> (Some SyntaxError, s)
         | Some data \<Rightarrow>
             if key = ''@'' then callInterceptors w E_broadcast (Payload data text) s
             else and_then (settle_request key data s)
                    (callInterceptors w E_message (Payload data text)))"

text \<open>The \<open>catch\<close> block:
  \<open>console.warn(ex instanceof SyntaxError ? 'Received invalid JSON.' : ex.message)\<close>.
  Reading \<open>ex.message\<close> of \<open>null\<close> or \<open>undefined\<close> raises a \<open>TypeError\<close>, which
  leaves the handler; every other thrown value is printed and the handler ends
  normally.\<close>

fun caught :: "exn \<Rightarrow> darkws \<Rightarrow> exn option \<times> darkws" where
  "caught SyntaxError s = (None, s\<lparr>console := console s @ [Warn ''Received invalid JSON.'']\<rparr>)"
| "caught (Error m) s = (None, s\<lparr>console := console s @ [Warn m]\<rparr>)"
| "caught (TypeError k) s = (None, s\<lparr>console := console s @ [Warn_engine (TypeError k)]\<rparr>)"
| "caught InvalidStateError s =
     (None, s\<lparr>console := console s @ [Warn_engine InvalidStateError]\<rparr>)"
| "caught Thrown_nullish s = (Some (TypeError Read_of_nullish), s)"
| "caught Thrown_other s = (None, s\<lparr>console := console s @ [Warn_other]\<rparr>)"

text \<open>\<open>socket.onmessage\<close>: the keepalive, else the \<open>try\<close> block with its \<open>catch\<close>.\<close>

definition onmessage :: "world \<Rightarrow> string \<Rightarrow> darkws \<Rightarrow> exn option \<times> darkws" where
  "onmessage w text s =
     (if text = ''ping'' then (None, private_send ''pong'' Ping_handled s)
      else (case try_message w text s of
              (None, s1) \<Rightarrow> (None, s1)
            | (Some ex, s1) \<Rightarrow> caught ex s1))"

text \<open>The transport changes the ready state of the current socket before it calls a
  handler.\<close>

definition set_readyState :: "ready_state \<Rightarrow> darkws \<Rightarrow> darkws" where
  "set_readyState r s = s\<lparr>socket := map_option (\<lambda>(i, old). (i, r)) (socket s)\<rparr>"

section \<open>Notions used to state the properties\<close>

text \<open>The handlers a dispatch over the list \<open>hs\<close> calls, in order: all of them up to and
  including the first that raises; and the exception the dispatch ends with, if any.\<close>

fun invoked :: "world \<Rightarrow> category \<Rightarrow> arg \<Rightarrow> handler list \<Rightarrow> handler list" where
  "invoked w event a [] = []"
| "invoked w event a (h # hs) =
     h # (case behaviour w h event a of Some e \<Rightarrow> [] | None \<Rightarrow> invoked w event a hs)"

fun raised :: "world \<Rightarrow> category \<Rightarrow> arg \<Rightarrow> handler list \<Rightarrow> exn option" where
  "raised w event a [] = None"
| "raised w event a (h # hs) =
     (case behaviour w h event a of Some e \<Rightarrow> Some e | None \<Rightarrow> raised w event a hs)"

text \<open>The callbacks waiting on a connection promise; the interval with handle \<open>h\<close>
  polling for promise \<open>p\<close>; what a waiter hands to the socket \<open>i\<close>.\<close>

definition waiters_of :: "darkws \<Rightarrow> nat \<Rightarrow> waiter list" where
  "waiters_of s p =
     (if p < length (conn_promises s)
      then (case conn_promises s ! p of Waiting ws \<Rightarrow> ws | Opened i \<Rightarrow> [])
      else [])"

definition polls_for :: "darkws \<Rightarrow> nat \<Rightarrow> nat \<Rightarrow> bool" where
  "polls_for s h p = (h < length (intervals s) \<and> intervals s ! h = Some p)"

text \<open>The pending wait is well formed: \<open>connectingPromise\<close>, when set, is a promise
  that exists and is not resolved, and some interval polls for it.\<close>

definition wait_consistent :: "darkws \<Rightarrow> bool" where
  "wait_consistent s =
     (case connectingPromise s of
        None \<Rightarrow> True
      | Some p \<Rightarrow>
          p < length (conn_promises s)
          \<and> (case conn_promises s ! p of Waiting ws \<Rightarrow> True | Opened i \<Rightarrow> False)
          \<and> Some p \<in> set (intervals s))"

fun sent_by :: "nat \<Rightarrow> waiter \<Rightarrow> nat \<times> string" where
  "sent_by i (Waiter d k) = (i, d)"

text \<open>The states of a client: the constructor's, and from there every handler, timer,
  interval and public method, in any order and with any arguments.\<close>

inductive reachable :: "world \<Rightarrow> darkws \<Rightarrow> bool" for w :: world where
  created: "reachable w (new_DarkWS os)"
| transport: "reachable w s \<Longrightarrow> reachable w (set_readyState r s)"
| opened: "reachable w s \<Longrightarrow> reachable w (snd (onopen w s))"
| closed: "reachable w s \<Longrightarrow> reachable w (snd (onclose w wasClean code reason s))"
| errored: "reachable w s \<Longrightarrow> reachable w (snd (onerror w s))"
| received: "reachable w s \<Longrightarrow> reachable w (snd (onmessage w t s))"
| tick: "reachable w s \<Longrightarrow> reachable w (poll h s)"
| timer: "reachable w s \<Longrightarrow> reachable w (fire_timer h s)"
| sending: "reachable w s \<Longrightarrow> reachable w (send w data s)"
| requesting: "reachable w s \<Longrightarrow> reachable w (snd (request w random action data s))"
| subscribing: "reachable w s \<Longrightarrow> reachable w (intercept event h s)"
| unsubscribing: "reachable w s \<Longrightarrow> reachable w (unsubscribe event h s)"

text \<open>What a client can go through from a state \<open>s\<close>: every handler, timer, interval
  and public method, in any order and with any arguments; \<open>later w s n t\<close> counts in
  \<open>n\<close> the unclean closes on the way from \<open>s\<close> to \<open>t\<close> that scheduled a retry.\<close>

inductive later :: "world \<Rightarrow> darkws \<Rightarrow> nat \<Rightarrow> darkws \<Rightarrow> bool"
  for w :: world and s :: darkws where
  now: "later w s 0 s"
| transport: "later w s n t \<Longrightarrow> later w s n (set_readyState r t)"
| opened: "later w s n t \<Longrightarrow> later w s n (snd (onopen w t))"
| retried: "later w s n t \<Longrightarrow> reconnect (opts t) \<Longrightarrow>
     reconnectAttempt t < reconnectAttempts (opts t) \<Longrightarrow>
     later w s (Suc n) (snd (onclose w False code reason t))"
| closed: "later w s n t \<Longrightarrow>
     wasClean \<or> \<not> (reconnect (opts t) \<and> reconnectAttempt t < reconnectAttempts (opts t)) \<Longrightarrow>
     later w s n (snd (onclose w wasClean code reason t))"
| errored: "later w s n t \<Longrightarrow> later w s n (snd (onerror w t))"
| received: "later w s n t \<Longrightarrow> later w s n (snd (onmessage w m t))"
| tick: "later w s n t \<Longrightarrow> later w s n (poll h t)"
| timer: "later w s n t \<Longrightarrow> later w s n (fire_timer h t)"
| sending: "later w s n t \<Longrightarrow> later w s n (send w data t)"
| requesting: "later w s n t \<Longrightarrow> later w s n (snd (request w random action data t))"
| subscribing: "later w s n t \<Longrightarrow> later w s n (intercept event h t)"
| unsubscribing: "later w s n t \<Longrightarrow> later w s n (unsubscribe event h t)"

text \<open>The digits of radix 26.\<close>

definition base26_digits :: string where
  "base26_digits = ''0123456789abcdefghijklmnop''"

section \<open>An example environment\<close>

text \<open>A small environment for the concrete runs below: \<open>JSON.parse\<close> on the few texts
  these runs hand to it (every other text they hand to it is not JSON), \<open>JSON.stringify\<close>
  on the number 1, and handlers of which number 7 throws \<open>Error('boom')\<close>, number 8
  throws \<open>null\<close> and the others return.\<close>

definition example_parse :: "string \<Rightarrow> json option" where
  \<open>example_parse t =
     (if t = ''1'' then Some (JNum 1)
      else if t = ''null'' then Some JNull
      else if t = ''{"error":{"code":"x"}}''
        then Some (JObj [(''error'', JObj [(''code'', JStr ''x'')])])
      else if t = ''{"key":"k","data":"a|b"}''
        then Some (JObj [(''key'', JStr ''k''), (''data'', JStr ''a|b'')])
      else None)\<close>

definition example_world :: world where
  "example_world =
     \<lparr>json_parse = example_parse,
      json_stringify = (\<lambda>j. if j = JNum 1 then ''1'' else ''null''),
      behaviour = (\<lambda>h event a. if h = 7 then Some (Error ''boom'')
                               else if h = 8 then Some Thrown_nullish else None)\<rparr>"

section \<open>Properties\<close>

subsection \<open>Dispatch\<close>

lemma call_each_eq:
  "call_each w event a hs s =
     (raised w event a hs,
      s\<lparr>calls := calls s @ map (\<lambda>h. (h, event, a)) (invoked w event a hs)\<rparr>)"
  by (induction hs arbitrary: s) (auto split: option.splits)

lemma callInterceptors_eq:
  "callInterceptors w event a s =
     (raised w event a (interceptors s event),
      s\<lparr>calls := calls s @
         map (\<lambda>h. (h, event, a)) (invoked w event a (interceptors s event))\<rparr>)"
  by (simp add: callInterceptors_def call_each_eq)

lemma invoked_all: "raised w event a hs = None \<Longrightarrow> invoked w event a hs = hs"
  by (induction hs) (auto split: option.splits)

lemma invoked_prefix:
  "invoked w event a hs =
     takeWhile (\<lambda>h. behaviour w h event a = None) hs @
     take 1 (dropWhile (\<lambda>h. behaviour w h event a = None) hs)"
  by (induction hs) (auto split: option.splits)

subsection \<open>Subscribing and unsubscribing\<close>

lemma indexOf_absent: "x \<notin> set xs \<Longrightarrow> indexOf xs x = - 1"
  by (induction xs) (auto simp: Let_def)

lemma indexOf_present: "x \<in> set xs \<Longrightarrow> 0 \<le> indexOf xs x \<and> indexOf xs x < int (length xs)"
  by (induction xs) (auto simp: Let_def)

lemma splice_indexOf_present:
  "x \<in> set xs \<Longrightarrow> splice_js xs (indexOf xs x) 1 = remove1 x xs"
proof (induction xs)
  case Nil
  then show ?case by simp
next
  case (Cons y ys)
  show ?case
  proof (cases "y = x")
    case True
    then show ?thesis by (simp add: splice_js_def)
  next
    case False
    with Cons.prems have m: "x \<in> set ys" by simp
    from indexOf_present[OF m] Cons.IH[OF m] False show ?thesis
      by (simp add: splice_js_def Let_def nat_add_distrib min_def max_def split: if_splits)
  qed
qed

lemma splice_last: "splice_js xs (- 1) 1 = butlast xs"
  by (cases xs rule: rev_cases) (auto simp: splice_js_def Let_def max_def min_def)

text \<open>The first call of an unsubscribe action, while the handler is subscribed, removes
  its first occurrence and nothing else.\<close>

lemma unsubscribe_present:
  "h \<in> set (interceptors s event) \<Longrightarrow>
   interceptors (unsubscribe event h s) =
     (interceptors s)(event := remove1 h (interceptors s event))"
  by (simp add: unsubscribe_def Let_def splice_indexOf_present)

text \<open>Once the handler is gone, \<open>indexOf\<close> is \<open>-1\<close> and \<open>splice(-1, 1)\<close> removes the
  last handler of the category, whichever it is.\<close>

lemma unsubscribe_absent:
  "h \<notin> set (interceptors s event) \<Longrightarrow>
   interceptors (unsubscribe event h s) =
     (interceptors s)(event := butlast (interceptors s event))"
  by (simp add: unsubscribe_def Let_def indexOf_absent splice_last)

text \<open>
  C2. Handlers 1 and 2 subscribe to \<open>open\<close>, in this order. Calling the unsubscribe
  action of handler 1 once leaves handler 2 subscribed; calling it a second time is not a
  no-op: it removes handler 2, and no handler is left.
\<close>

theorem unsubscribe_twice_removes_another_handler:
  "interceptors (unsubscribe E_open 1 (intercept E_open 2 (intercept E_open 1
      (new_DarkWS defaultOptions)))) E_open = [2]
   \<and> interceptors (unsubscribe E_open 1 (unsubscribe E_open 1 (intercept E_open 2
      (intercept E_open 1 (new_DarkWS defaultOptions))))) E_open = []"
  by (simp add: unsubscribe_def intercept_def new_DarkWS_def connect_def splice_js_def Let_def)

subsection \<open>Closing and reconnecting\<close>

lemma onclose_unclean_retry:
  assumes "reconnect (opts s)" and "reconnectAttempt s < reconnectAttempts (opts s)"
  shows "timers (snd (onclose w False code reason s)) =
           timers s @ [Some (reconnectTimeout (opts s), Reconnect_timer)]"
    and "reconnectAttempt (snd (onclose w False code reason s)) = reconnectAttempt s + 1"
    and "calls (snd (onclose w False code reason s)) =
           calls s @
           map (\<lambda>h. (h, E_reconnect, Attempt (reconnectAttempt s + 1)))
             (invoked w E_reconnect (Attempt (reconnectAttempt s + 1))
                (interceptors s E_reconnect)) @
           (case raised w E_reconnect (Attempt (reconnectAttempt s + 1))
                   (interceptors s E_reconnect) of
              None \<Rightarrow> map (\<lambda>h. (h, E_close, Closing False code reason))
                        (invoked w E_close (Closing False code reason) (interceptors s E_close))
            | Some e \<Rightarrow> [])"
  using assms
  by (simp_all add: onclose_def callInterceptors_eq debug_def and_then_def setTimeout_def Let_def
      split: option.splits)

lemma onclose_unclean_no_retry:
  assumes "\<not> (reconnect (opts s) \<and> reconnectAttempt s < reconnectAttempts (opts s))"
  shows "timers (snd (onclose w False code reason s)) = timers s"
    and "reconnectAttempt (snd (onclose w False code reason s)) = reconnectAttempt s"
    and "calls (snd (onclose w False code reason s)) =
           calls s @ map (\<lambda>h. (h, E_close, Closing False code reason))
                        (invoked w E_close (Closing False code reason) (interceptors s E_close))"
  using assms
  by (auto simp add: onclose_def callInterceptors_eq debug_def and_then_def setTimeout_def
      Let_def split: option.splits)

lemma onclose_keeps_configuration:
  "opts (snd (onclose w wasClean code reason s)) = opts s"
  "interceptors (snd (onclose w wasClean code reason s)) = interceptors s"
  by (simp_all add: onclose_def callInterceptors_eq debug_def and_then_def setTimeout_def
      Let_def split: option.splits)

lemma fire_reconnect_timer:
  "h < length (timers s) \<Longrightarrow> timers s ! h = Some (d, Reconnect_timer) \<Longrightarrow>
   fire_timer h s = connect (s\<lparr>timers := (timers s)[h := None]\<rparr>)"
  by (simp add: fire_timer_def)

text \<open>
  C6. On an unclean close, with \<open>n\<close> the attempt counter plus one: if reconnect is
  enabled and the counter is below the limit, exactly one timer is added, with the
  configured delay, whose firing is \<open>connect()\<close>; the counter becomes \<open>n\<close>; and the
  handlers of \<open>reconnect\<close> are called with \<open>n\<close>, before those of \<open>close\<close>. Otherwise
  (reconnect disabled, or the counter at the limit) no timer is added, the counter is
  unchanged and only the handlers of \<open>close\<close> are called.
\<close>

theorem unclean_close_reconnect_policy:
  "(let s' = snd (onclose w False code reason s); n = reconnectAttempt s + 1
    in if reconnect (opts s) \<and> reconnectAttempt s < reconnectAttempts (opts s)
       then timers s' = timers s @ [Some (reconnectTimeout (opts s), Reconnect_timer)]
          \<and> fire_timer (length (timers s)) s' = connect (s'\<lparr>timers := timers s @ [None]\<rparr>)
          \<and> reconnectAttempt s' = n
          \<and> calls s' =
              calls s @
              map (\<lambda>h. (h, E_reconnect, Attempt n))
                (invoked w E_reconnect (Attempt n) (interceptors s E_reconnect)) @
              (case raised w E_reconnect (Attempt n) (interceptors s E_reconnect) of
                 None \<Rightarrow> map (\<lambda>h. (h, E_close, Closing False code reason))
                           (invoked w E_close (Closing False code reason)
                              (interceptors s E_close))
               | Some e \<Rightarrow> [])
       else timers s' = timers s
          \<and> reconnectAttempt s' = reconnectAttempt s
          \<and> calls s' =
              calls s @ map (\<lambda>h. (h, E_close, Closing False code reason))
                (invoked w E_close (Closing False code reason) (interceptors s E_close)))"
proof (cases "reconnect (opts s) \<and> reconnectAttempt s < reconnectAttempts (opts s)")
  case True
  then have r: "reconnect (opts s)" and l: "reconnectAttempt s < reconnectAttempts (opts s)"
    by simp_all
  note f = onclose_unclean_retry[OF r l, of w code reason]
  have "fire_timer (length (timers s)) (snd (onclose w False code reason s)) =
        connect ((snd (onclose w False code reason s))\<lparr>timers := timers s @ [None]\<rparr>)"
    by (subst fire_reconnect_timer[where d = "reconnectTimeout (opts s)"]) (simp_all add: f(1))
  with True f show ?thesis by (simp add: Let_def)
next
  case False
  from onclose_unclean_no_retry[OF False, of w code reason] False show ?thesis
    by (simp add: Let_def)
qed

text \<open>A client with a limit of one attempt and handler 5 on \<open>reconnect\<close>: the first
  unclean close schedules the reconnect and calls the handler with 1; the second, the
  counter being at the limit, schedules nothing and calls no handler.\<close>

theorem unclean_close_reconnect_policy_witness:
  "(let s = intercept E_reconnect 5 (new_DarkWS (defaultOptions\<lparr>reconnectAttempts := 1\<rparr>));
        s1 = snd (onclose example_world False 1006 [] s);
        s2 = snd (onclose example_world False 1006 [] s1)
    in timers s1 = [Some (1000, Reconnect_timer)] \<and> reconnectAttempt s1 = 1
       \<and> calls s1 = [(5, E_reconnect, Attempt 1)]
       \<and> timers s2 = timers s1 \<and> reconnectAttempt s2 = 1 \<and> calls s2 = calls s1)"
proof -
  define s where
    "s = intercept E_reconnect 5 (new_DarkWS (defaultOptions\<lparr>reconnectAttempts := 1\<rparr>))"
  define s1 where "s1 = snd (onclose example_world False 1006 [] s)"
  have s: "reconnect (opts s)" "reconnectAttempt s = 0" "reconnectAttempts (opts s) = 1"
    "timers s = []" "calls s = []" "interceptors s E_reconnect = [5]"
    "interceptors s E_close = []" "reconnectTimeout (opts s) = 1000"
    by (simp_all add: s_def intercept_def new_DarkWS_def connect_def defaultOptions_def)
  have b: "behaviour example_world 5 E_reconnect (Attempt 1) = None"
    by (simp add: example_world_def)
  from unclean_close_reconnect_policy[of example_world 1006 "[]" s]
  have 1: "timers s1 = [Some (1000, Reconnect_timer)] \<and> reconnectAttempt s1 = 1
       \<and> calls s1 = [(5, E_reconnect, Attempt 1)]"
    by (simp add: s s1_def b Let_def)
  have o: "opts s1 = opts s" "interceptors s1 = interceptors s"
    by (simp_all add: s1_def onclose_keeps_configuration)
  from unclean_close_reconnect_policy[of example_world 1006 "[]" s1]
  have 2: "timers (snd (onclose example_world False 1006 [] s1)) = timers s1
     \<and> reconnectAttempt (snd (onclose example_world False 1006 [] s1)) = 1
     \<and> calls (snd (onclose example_world False 1006 [] s1)) = calls s1"
    by (simp add: 1 o s Let_def)
  from 1 2 show ?thesis by (simp add: Let_def s_def[symmetric] s1_def[symmetric])
qed

subsection \<open>Opening\<close>

lemma onopen_eq:
  "onopen w s =
     (raised w E_open Raw_event (interceptors s E_open),
      (debug Connected s)\<lparr>calls := calls s @
         map (\<lambda>h. (h, E_open, Raw_event)) (invoked w E_open Raw_event (interceptors s E_open))\<rparr>)"
  by (simp add: onopen_def callInterceptors_eq debug_def)

lemma onopen_keeps:
  "reconnectAttempt (snd (onopen w s)) = reconnectAttempt s"
  "opts (snd (onopen w s)) = opts s"
  "interceptors (snd (onopen w s)) = interceptors s"
  "timers (snd (onopen w s)) = timers s"
  by (simp_all add: onopen_eq debug_def)

lemma connect_keeps:
  "reconnectAttempt (connect s) = reconnectAttempt s"
  by (simp add: connect_def Let_def split: option.splits)

text \<open>
  C1, as stated, fails. Handler 5 subscribes to \<open>reconnect\<close>; the connection drops
  (attempt 1), the reconnect timer fires, the new socket opens and its open handler runs:
  the counter is still 1. The connection drops again: the handler is called with 2.
\<close>

theorem open_counterexample:
  "(let s0 = intercept E_reconnect 5 (new_DarkWS defaultOptions);
        s1 = snd (onclose example_world False 1006 [] s0);
        s2 = set_readyState OPEN (fire_timer 0 s1);
        s3 = snd (onopen example_world s2);
        s4 = snd (onclose example_world False 1006 [] s3)
    in socket s3 = Some (1, OPEN) \<and> reconnectAttempt s3 = 1 \<and> reconnectAttempt s3 \<noteq> 0
       \<and> calls s4 = [(5, E_reconnect, Attempt 1), (5, E_reconnect, Attempt 2)])"
  by (simp add: Let_def intercept_def new_DarkWS_def connect_def defaultOptions_def onclose_def
      onopen_def callInterceptors_def debug_def and_then_def setTimeout_def fire_timer_def
      set_readyState_def example_world_def)

subsection \<open>Exceptions of handlers\<close>

lemma raised_dropWhile:
  "raised w event a hs =
     (case dropWhile (\<lambda>h. behaviour w h event a = None) hs of
        [] \<Rightarrow> None | h # rest \<Rightarrow> behaviour w h event a)"
  by (induction hs) (auto split: option.splits)

lemma caught_keeps:
  "futures (snd (caught ex s)) = futures s"
  "requests (snd (caught ex s)) = requests s"
  "timers (snd (caught ex s)) = timers s"
  "calls (snd (caught ex s)) = calls s"
  "sent (snd (caught ex s)) = sent s"
  "socket (snd (caught ex s)) = socket s"
  "connectingPromise (snd (caught ex s)) = connectingPromise s"
  "conn_promises (snd (caught ex s)) = conn_promises s"
  "intervals (snd (caught ex s)) = intervals s"
  "interceptors (snd (caught ex s)) = interceptors s"
  "opts (snd (caught ex s)) = opts s"
  "reconnectAttempt (snd (caught ex s)) = reconnectAttempt s"
  by (cases ex; simp)+

lemma caught_raises:
  "fst (caught ex s) =
     (if ex = Thrown_nullish then Some (TypeError Read_of_nullish) else None)"
  by (cases ex) simp_all

lemma onmessage_raises:
  "fst (onmessage w text s) =
     (if text \<noteq> ''ping'' \<and> fst (try_message w text s) = Some Thrown_nullish
      then Some (TypeError Read_of_nullish) else None)"
proof (cases "text = ''ping''")
  case True
  then show ?thesis by (simp add: onmessage_def)
next
  case False
  obtain e s1 where t: "try_message w text s = (e, s1)" by (cases "try_message w text s")
  show ?thesis using False by (cases e) (simp_all add: onmessage_def t caught_raises)
qed

lemma onmessage_broadcast_raise:
  assumes "text \<noteq> ''ping''" and "decode_key text = ''@''" and "decode_data text = Some d"
    and "json_parse w d = Some data"
    and "raised w E_broadcast (Payload data text) (interceptors s E_broadcast) = Some ex"
  shows "onmessage w text s =
     caught ex
       (s\<lparr>calls := calls s @ map (\<lambda>h. (h, E_broadcast, Payload data text))
                  (invoked w E_broadcast (Payload data text) (interceptors s E_broadcast))\<rparr>)"
  using assms by (simp add: onmessage_def try_message_def callInterceptors_eq Let_def)

lemma onmessage_message_raise:
  assumes "text \<noteq> ''ping''" and "decode_key text = key" and "key \<noteq> ''@''"
    and "decode_data text = Some d" and "json_parse w d = Some data"
    and "settle_request key data s = (None, s1)"
    and "raised w E_message (Payload data text) (interceptors s1 E_message) = Some ex"
  shows "onmessage w text s =
     caught ex
       (s1\<lparr>calls := calls s1 @ map (\<lambda>h. (h, E_message, Payload data text))
                  (invoked w E_message (Payload data text) (interceptors s1 E_message))\<rparr>)"
  using assms by (simp add: onmessage_def try_message_def callInterceptors_eq Let_def and_then_def)

text \<open>
  C5, as stated, fails. Handler 7, which throws an \<open>Error\<close>, subscribes to \<open>broadcast\<close>
  and to \<open>message\<close>. The dispatch itself passes the exception on; but the handler of
  inbound messages ends normally on a broadcast and on a directed message, with the
  exception's message printed as a warning: the exception does not surface.
\<close>

theorem handler_exception_counterexample:
  "(let s = intercept E_message 7 (intercept E_broadcast 7 (new_DarkWS defaultOptions))
    in fst (callInterceptors example_world E_broadcast (Payload (JNum 1) ''@|1'') s)
         = Some (Error ''boom'')
     \<and> fst (onmessage example_world ''@|1'' s) = None
     \<and> calls (snd (onmessage example_world ''@|1'' s)) = [(7, E_broadcast, Payload (JNum 1) ''@|1'')]
     \<and> console (snd (onmessage example_world ''@|1'' s)) = [Warn ''boom'']
     \<and> fst (onmessage example_world ''k|1'' s) = None
     \<and> calls (snd (onmessage example_world ''k|1'' s)) = [(7, E_message, Payload (JNum 1) ''k|1'')]
     \<and> console (snd (onmessage example_world ''k|1'' s)) = [Warn ''boom''])"
  by (simp add: Let_def intercept_def new_DarkWS_def connect_def defaultOptions_def
      onmessage_def try_message_def decode_key_def decode_data_def split_def
      callInterceptors_def and_then_def settle_request_def lookup_request_def
      object_prototype_keys_def example_world_def example_parse_def)

text \<open>
  C5, amended. For handlers that do not subscribe or unsubscribe while a dispatch runs
  (the handlers of this model): a dispatch calls the handlers of the category in
  registration order, up to and including the first that throws, and ends with what that
  handler threw, which it does not catch. From the open and error handlers of the socket
  the exception propagates. \<open>broadcast\<close> and \<open>message\<close> are dispatched inside the \<open>try\<close>
  block of the handler of inbound messages: what one of their handlers throws goes to its
  \<open>catch\<close> block. An exception object is printed there as a warning (its message, or
  \<open>Received invalid JSON.\<close> for a \<open>SyntaxError\<close>) and swallowed, as a decode failure
  is. Only a thrown \<open>null\<close> or \<open>undefined\<close> leaves the handler of inbound messages, as the
  \<open>TypeError\<close> that reading its \<open>message\<close> raises in the \<open>catch\<close> block; nothing else
  makes that handler end with an exception.
\<close>

theorem dispatch_order_and_exceptions:
  "(let ok = (\<lambda>h. behaviour w h event a = None); hs = interceptors s event
    in callInterceptors w event a s =
         ((case dropWhile ok hs of [] \<Rightarrow> None | h # rest \<Rightarrow> behaviour w h event a),
          s\<lparr>calls := calls s @
               map (\<lambda>h. (h, event, a)) (takeWhile ok hs @ take 1 (dropWhile ok hs))\<rparr>))
   \<and> fst (onopen w s) = raised w E_open Raw_event (interceptors s E_open)
   \<and> fst (onerror w s) = raised w E_error Raw_event (interceptors s E_error)
   \<and> fst (onmessage w text s) =
       (if text \<noteq> ''ping'' \<and> fst (try_message w text s) = Some Thrown_nullish
        then Some (TypeError Read_of_nullish) else None)
   \<and> (text \<noteq> ''ping'' \<and> decode_key text = ''@'' \<and> decode_data text = Some d
        \<and> json_parse w d = Some data
        \<and> raised w E_broadcast (Payload data text) (interceptors s E_broadcast) = Some ex
      \<longrightarrow> onmessage w text s =
            caught ex
              (s\<lparr>calls := calls s @ map (\<lambda>h. (h, E_broadcast, Payload data text))
                 (invoked w E_broadcast (Payload data text) (interceptors s E_broadcast))\<rparr>))
   \<and> (text \<noteq> ''ping'' \<and> decode_key text \<noteq> ''@'' \<and> decode_data text = Some d
        \<and> json_parse w d = Some data
        \<and> settle_request (decode_key text) data s = (None, s1)
        \<and> raised w E_message (Payload data text) (interceptors s1 E_message) = Some ex
      \<longrightarrow> onmessage w text s =
            caught ex
              (s1\<lparr>calls := calls s1 @ map (\<lambda>h. (h, E_message, Payload data text))
                 (invoked w E_message (Payload data text) (interceptors s1 E_message))\<rparr>))
   \<and> caught SyntaxError s' =
       (None, s'\<lparr>console := console s' @ [Warn ''Received invalid JSON.'']\<rparr>)
   \<and> caught (Error m) s' = (None, s'\<lparr>console := console s' @ [Warn m]\<rparr>)
   \<and> caught Thrown_other s' = (None, s'\<lparr>console := console s' @ [Warn_other]\<rparr>)
   \<and> caught Thrown_nullish s' = (Some (TypeError Read_of_nullish), s')"
proof -
  have 1: "(let ok = (\<lambda>h. behaviour w h event a = None); hs = interceptors s event
    in callInterceptors w event a s =
         ((case dropWhile ok hs of [] \<Rightarrow> None | h # rest \<Rightarrow> behaviour w h event a),
          s\<lparr>calls := calls s @
               map (\<lambda>h. (h, event, a)) (takeWhile ok hs @ take 1 (dropWhile ok hs))\<rparr>))"
    unfolding Let_def callInterceptors_eq raised_dropWhile invoked_prefix by simp
  have 2: "fst (onopen w s) = raised w E_open Raw_event (interceptors s E_open)"
    by (simp add: onopen_def callInterceptors_eq debug_def)
  have 3: "fst (onerror w s) = raised w E_error Raw_event (interceptors s E_error)"
    by (simp add: onerror_def callInterceptors_eq debug_def)
  note n4 = onmessage_raises[of w "text" s]
  note n5 = onmessage_broadcast_raise[of "text" d w data s ex]
  note n6 = onmessage_message_raise[of "text" "decode_key text" d w data s s1 ex]
  have 7: "caught SyntaxError s' =
       (None, s'\<lparr>console := console s' @ [Warn ''Received invalid JSON.'']\<rparr>)
   \<and> caught (Error m) s' = (None, s'\<lparr>console := console s' @ [Warn m]\<rparr>)
   \<and> caught Thrown_other s' = (None, s'\<lparr>console := console s' @ [Warn_other]\<rparr>)
   \<and> caught Thrown_nullish s' = (Some (TypeError Read_of_nullish), s')"
    by simp
  from 1 2 3 n4 n5 n6 7 show ?thesis by blast
qed

text \<open>Handler 7 on \<open>open\<close>, \<open>broadcast\<close> and \<open>message\<close>: its exception leaves the open
  handler, and is swallowed with a warning on a broadcast and on a directed message.
  Handler 8, which throws \<open>null\<close>, on \<open>broadcast\<close>: the handler of inbound messages ends
  with a \<open>TypeError\<close> and prints nothing.\<close>

theorem dispatch_order_and_exceptions_witness:
  "(let s = intercept E_open 7 (intercept E_message 7 (intercept E_broadcast 7
              (new_DarkWS defaultOptions)))
    in fst (onopen example_world s) = Some (Error ''boom'')
     \<and> onmessage example_world ''@|1'' s =
         (None, s\<lparr>calls := [(7, E_broadcast, Payload (JNum 1) ''@|1'')],
                  console := [Warn ''boom'']\<rparr>)
     \<and> onmessage example_world ''k|1'' s =
         (None, s\<lparr>calls := [(7, E_message, Payload (JNum 1) ''k|1'')],
                  console := [Warn ''boom'']\<rparr>))
   \<and> (let s = intercept E_broadcast 8 (new_DarkWS defaultOptions)
        in onmessage example_world ''@|1'' s =
             (Some (TypeError Read_of_nullish),
              s\<lparr>calls := [(8, E_broadcast, Payload (JNum 1) ''@|1'')]\<rparr>))"
proof -
  define s where "s = intercept E_open 7 (intercept E_message 7 (intercept E_broadcast 7
              (new_DarkWS defaultOptions)))"
  define u where "u = intercept E_broadcast 8 (new_DarkWS defaultOptions)"
  have s: "interceptors s E_open = [7]" "interceptors s E_broadcast = [7]"
    "interceptors s E_message = [7]" "calls s = []" "console s = []" "requests s ''k'' = None"
    by (simp_all add: s_def intercept_def new_DarkWS_def connect_def)
  have u: "interceptors u E_broadcast = [8]" "calls u = []"
    by (simp_all add: u_def intercept_def new_DarkWS_def connect_def)
  have d: "decode_key ''@|1'' = ''@''" "decode_data ''@|1'' = Some ''1''"
    "decode_key ''k|1'' = ''k''" "decode_data ''k|1'' = Some ''1''"
    by (simp_all add: decode_key_def decode_data_def split_def)
  have p: "json_parse example_world ''1'' = Some (JNum 1)"
    by (simp add: example_world_def example_parse_def)
  have b: "behaviour example_world 7 event a = Some (Error ''boom'')"
    "behaviour example_world 8 event a = Some Thrown_nullish" for event a
    by (simp_all add: example_world_def)
  have r: "settle_request ''k'' (JNum 1) s = (None, s)"
    by (simp add: settle_request_def lookup_request_def s object_prototype_keys_def)
  from dispatch_order_and_exceptions[of example_world E_open Raw_event s "''@|1''" "''1''" "JNum 1" "Error ''boom''" s]
  have 1: "fst (onopen example_world s) = Some (Error ''boom'')
     \<and> onmessage example_world ''@|1'' s =
         (None, s\<lparr>calls := [(7, E_broadcast, Payload (JNum 1) ''@|1'')],
                  console := [Warn ''boom'']\<rparr>)"
    by (simp add: s d p b)
  from dispatch_order_and_exceptions[of example_world E_open Raw_event s "''k|1''" "''1''" "JNum 1" "Error ''boom''" s]
  have 2: "onmessage example_world ''k|1'' s =
         (None, s\<lparr>calls := [(7, E_message, Payload (JNum 1) ''k|1'')],
                  console := [Warn ''boom'']\<rparr>)"
    by (simp add: s d p b r)
  from dispatch_order_and_exceptions[of example_world E_open Raw_event u "''@|1''" "''1''" "JNum 1" Thrown_nullish u]
  have 3: "onmessage example_world ''@|1'' u =
             (Some (TypeError Read_of_nullish),
              u\<lparr>calls := [(8, E_broadcast, Payload (JNum 1) ''@|1'')]\<rparr>)"
    by (simp add: u d p b)
  from 1 2 3 show ?thesis by (simp add: Let_def s_def[symmetric] u_def[symmetric])
qed

subsection \<open>Decoding inbound text\<close>

text \<open>What the destructuring of \<open>split('|', 2)\<close> yields: the key is the text before the
  first delimiter (the whole text when there is none, never the default); the data is the
  text between the first and the second delimiter.\<close>

lemma pieces_takeWhile:
  "pieces c s = takeWhile (\<lambda>x. x \<noteq> c) s #
     (case dropWhile (\<lambda>x. x \<noteq> c) s of [] \<Rightarrow> [] | x # rest \<Rightarrow> pieces c rest)"
  by (induction s) (auto split: list.splits)

lemma split_two:
  "split t c 2 =
     takeWhile (\<lambda>x. x \<noteq> c) t #
     (case dropWhile (\<lambda>x. x \<noteq> c) t of
        [] \<Rightarrow> [] | x # rest \<Rightarrow> [takeWhile (\<lambda>x. x \<noteq> c) rest])"
proof (cases "dropWhile (\<lambda>x. x \<noteq> c) t")
  case Nil
  have "pieces c t = [takeWhile (\<lambda>x. x \<noteq> c) t]"
    by (subst pieces_takeWhile) (simp add: Nil)
  then show ?thesis unfolding split_def Nil by simp
next
  case (Cons x rest)
  have "pieces c t = takeWhile (\<lambda>x. x \<noteq> c) t # pieces c rest"
    by (subst pieces_takeWhile) (simp add: Cons)
  moreover have "take 1 (pieces c rest) = [takeWhile (\<lambda>x. x \<noteq> c) rest]"
    by (subst pieces_takeWhile) simp
  ultimately show ?thesis unfolding split_def Cons by (simp add: numeral_2_eq_2)
qed

lemma decode_key_eq: "decode_key t = takeWhile (\<lambda>x. x \<noteq> CHR ''|'') t"
  by (simp add: decode_key_def split_two)

lemma decode_data_eq:
  "decode_data t =
     (case dropWhile (\<lambda>x. x \<noteq> CHR ''|'') t of
        [] \<Rightarrow> None
      | x # rest \<Rightarrow> Some (takeWhile (\<lambda>x. x \<noteq> CHR ''|'') rest))"
  by (cases "dropWhile (\<lambda>x. x \<noteq> CHR ''|'') t")
    (simp_all add: decode_data_def split_two del: dropWhile_eq_Nil_conv)

text \<open>
  C4. A broadcast whose payload holds a delimiter inside a string: the text handed to the
  parser is cut at the second delimiter, it is not the remaining text; the parse fails
  where the parse of the remaining text would succeed, and the subscribed handler is not
  called. A text without delimiter has itself as key, not \<open>@\<close>.
\<close>

theorem inbound_payload_cut_at_second_delimiter:
  \<open>(let t = ''@|{"key":"k","data":"a|b"}'';
        s = intercept E_broadcast 5 (new_DarkWS defaultOptions);
        s' = snd (onmessage example_world t s)
    in decode_key t = ''@''
     \<and> decode_data t = Some ''{"key":"k","data":"a''
     \<and> json_parse example_world ''{"key":"k","data":"a|b"}''
         = Some (JObj [(''key'', JStr ''k''), (''data'', JStr ''a|b'')])
     \<and> calls s' = [] \<and> console s' = [Warn ''Received invalid JSON.'']
     \<and> decode_key ''abc'' = ''abc'' \<and> decode_data ''abc'' = None)\<close>
  by (simp add: decode_key_eq decode_data_eq Let_def onmessage_def try_message_def
      example_world_def example_parse_def intercept_def new_DarkWS_def connect_def)


subsection \<open>Settling a request\<close>

lemma settle_frame: "\<exists>f. settle p v s = s\<lparr>futures := f\<rparr>"
  by (cases "p < length (futures s) \<and> futures s ! p = Pending")
     (auto simp: settle_def intro: exI[of _ "futures s"])

lemma settle_request_resolve:
  assumes "requests s key = Some (Resolver res rej)" and "error_code data = Inr False"
  shows "settle_request key data s =
           (None, (call_resolve res data s)\<lparr>requests := (requests (call_resolve res data s))(key := None)\<rparr>)"
  using assms by (simp add: settle_request_def lookup_request_def Let_def)

lemma settle_request_reject:
  assumes "requests s key = Some (Resolver res rej)" and "error_code data = Inr True"
  shows "settle_request key data s =
           (None, (call_reject rej data s)\<lparr>requests := (requests (call_reject rej data s))(key := None)\<rparr>)"
  using assms by (simp add: settle_request_def lookup_request_def Let_def)

lemma call_resolve_clears_timer:
  "timers (call_resolve (Resolve_clearing h p) data s) = (timers s)[h := None]"
  by (simp add: settle_def clearTimeout_def)

lemma call_reject_keeps_timers: "timers (call_reject p data s) = timers s"
  by (simp add: call_reject_def settle_def)

text \<open>
  C3. A request is sent on an open connection and registered with its timeout timer. A
  normal response fulfils the promise, removes the entry and clears the timer. A response
  carrying an error code rejects the promise and removes the entry, but the timer is left
  pending.
\<close>

theorem rejection_leaves_timeout_timer_pending:
  \<open>(let s0 = set_readyState OPEN (new_DarkWS defaultOptions);
        s1 = poll 0 (snd (request example_world [1, 2, 3] ''act'' None s0));
        rejected = snd (onmessage example_world ''123|{"error":{"code":"x"}}'' s1);
        resolved = snd (onmessage example_world ''123|1'' s1)
    in sent s1 = [(0, ''123|act'')]
     \<and> requests s1 ''123'' = Some (Resolver (Resolve_clearing 0 0) 0)
     \<and> timers s1 = [Some (300000, Timeout_timer ''123'' 0)]
     \<and> futures resolved = [Fulfilled (JNum 1)]
     \<and> requests resolved ''123'' = None
     \<and> timers resolved = [None]
     \<and> futures rejected = [Rejected (JObj [(''error'', JObj [(''code'', JStr ''x'')])])]
     \<and> requests rejected ''123'' = None
     \<and> timers rejected = [Some (300000, Timeout_timer ''123'' 0)])\<close>
  by (simp add: Let_def new_DarkWS_def connect_def defaultOptions_def set_readyState_def
      request_def generateKey_def toString26_def substring_def digit_char_def request_frame_def
      private_send_def waitForConnection_def poll_def run_waiters_def socket_send_def
      setTimeout_def clearTimeout_def
      onmessage_def try_message_def decode_key_eq decode_data_eq settle_request_def
      lookup_request_def error_code_def call_reject_def settle_def callInterceptors_def
      and_then_def example_world_def example_parse_def)

text \<open>The payload \<open>null\<close>: reading \<open>data.error\<close> raises, the request is not settled and
  stays registered.\<close>

lemma null_payload_settles_nothing:
  \<open>(let s0 = set_readyState OPEN (new_DarkWS defaultOptions);
        s1 = poll 0 (snd (request example_world [1, 2, 3] ''act'' None s0));
        s2 = snd (onmessage example_world ''123|null'' s1)
    in futures s2 = [Pending] \<and> requests s2 ''123'' = requests s1 ''123''
     \<and> console s2 = [Warn_engine (TypeError Read_of_nullish)])\<close>
  by (simp add: Let_def new_DarkWS_def connect_def defaultOptions_def set_readyState_def
      request_def generateKey_def toString26_def substring_def digit_char_def request_frame_def
      private_send_def waitForConnection_def poll_def run_waiters_def socket_send_def
      setTimeout_def clearTimeout_def
      onmessage_def try_message_def decode_key_eq decode_data_eq settle_request_def
      lookup_request_def error_code_def call_reject_def settle_def callInterceptors_def
      and_then_def example_world_def example_parse_def)

subsection \<open>Generated keys\<close>

lemma generateKey_eq: "generateKey ds = map digit_char (take 6 ds)"
  by (cases ds) (simp_all add: generateKey_def toString26_def substring_def take_map min_def)

lemma digit_char_base26: "d < 26 \<Longrightarrow> digit_char d \<in> set base26_digits"
proof -
  assume d: "d < 26"
  have "take 26 ''0123456789abcdefghijklmnopqrstuvwxyz'' = base26_digits"
    by (simp add: base26_digits_def)
  then have "base26_digits ! d = digit_char d"
    using d by (metis digit_char_def nth_take)
  moreover have "d < length base26_digits" using d by (simp add: base26_digits_def)
  ultimately show ?thesis by (metis nth_mem)
qed

lemma generateKey_chars:
  assumes "\<forall>d\<in>set ds. d < 26"
  shows "set (generateKey ds) \<subseteq> set base26_digits"
proof -
  have "set (take 6 ds) \<subseteq> set ds" by (rule set_take_subset)
  with assms show ?thesis
    by (auto simp: generateKey_eq digit_char_base26)
qed

lemma takeWhile_key:
  "c \<notin> set key \<Longrightarrow> takeWhile (\<lambda>x. x \<noteq> c) (key @ c # rest) = key"
  by (induction key) auto

text \<open>
  C10. Whatever the digits of the random number, the generated key has at most 6
  characters, all of them among \<open>0\<close> to \<open>9\<close> and \<open>a\<close> to \<open>p\<close>; it is not the broadcast
  key \<open>@\<close> and holds no delimiter. So the key decoded from a response to it is the key
  itself (a directed message, not a broadcast), and the first segment of the request frame
  built from it is the key.
\<close>

theorem generated_key_shape:
  assumes "\<forall>d\<in>set ds. d < 26"
  shows "length (generateKey ds) \<le> 6
     \<and> set (generateKey ds) \<subseteq> set ''0123456789abcdefghijklmnop''
     \<and> generateKey ds \<noteq> ''@''
     \<and> CHR ''|'' \<notin> set (generateKey ds)
     \<and> decode_key (generateKey ds @ ''|'' @ payload) = generateKey ds
     \<and> decode_key (request_frame w (generateKey ds) action data) = generateKey ds"
proof -
  let ?k = "generateKey ds"
  have len: "length ?k \<le> 6" by (simp add: generateKey_eq)
  from generateKey_chars[OF assms]
  have chars: "set ?k \<subseteq> set ''0123456789abcdefghijklmnop''"
    by (simp add: base26_digits_def)
  then have bar: "CHR ''|'' \<notin> set ?k" and at: "CHR ''@'' \<notin> set ?k" by auto
  from at have ne: "?k \<noteq> ''@''" by auto
  from bar have 1: "decode_key (?k @ ''|'' @ payload) = ?k"
    by (simp add: decode_key_eq takeWhile_key)
  from bar have 2: "decode_key (request_frame w ?k action data) = ?k"
    by (simp add: decode_key_eq request_frame_def takeWhile_key)
  from len chars ne bar 1 2 show ?thesis by blast
qed

text \<open>The digits 1, 2, 25, 4, 5, 6, 7, 8, 9 give the key \<open>12p456\<close>.\<close>

theorem generated_key_shape_witness:
  "list_all (\<lambda>d. d < 26) [1, 2, 25, 4, 5, 6, 7, 8, 9::nat]
   \<and> generateKey [1, 2, 25, 4, 5, 6, 7, 8, 9] = ''12p456''
   \<and> length (generateKey [1, 2, 25, 4, 5, 6, 7, 8, 9]) \<le> 6
   \<and> set (generateKey [1, 2, 25, 4, 5, 6, 7, 8, 9]) \<subseteq> set ''0123456789abcdefghijklmnop''
   \<and> decode_key (request_frame example_world (generateKey [1, 2, 25, 4, 5, 6, 7, 8, 9])
        ''act'' (Some (JNum 1))) = ''12p456''"
proof -
  have h: "\<forall>d\<in>set [1, 2, 25, 4, 5, 6, 7, 8, 9::nat]. d < 26" by simp
  have k: "generateKey [1, 2, 25, 4, 5, 6, 7, 8, 9] = ''12p456''"
    by (simp add: generateKey_def toString26_def substring_def digit_char_def)
  from generated_key_shape[OF h, of "''1''" example_world "''act''" "Some (JNum 1)"] h k
  show ?thesis by simp
qed

subsection \<open>What sending and registering leave unchanged\<close>

lemma run_after_send_keeps:
  "socket (run_after_send k s) = socket s"
  "sent (run_after_send k s) = sent s"
  "futures (run_after_send k s) = futures s"
  "calls (run_after_send k s) = calls s"
  "intervals (run_after_send k s) = intervals s"
  "conn_promises (run_after_send k s) = conn_promises s"
  "connectingPromise (run_after_send k s) = connectingPromise s"
  "interceptors (run_after_send k s) = interceptors s"
  "opts (run_after_send k s) = opts s"
  "reconnectAttempt (run_after_send k s) = reconnectAttempt s"
  by (cases k; simp add: debug_def setTimeout_def Let_def)+

lemma fold_keeps:
  assumes "\<And>k s. f (g k s) = f s"
  shows "f (fold g ks s) = f s"
  by (induction ks arbitrary: s) (simp_all add: assms)

lemmas fold_run_after_send_keeps =
  fold_keeps[of socket run_after_send, OF run_after_send_keeps(1)]
  fold_keeps[of sent run_after_send, OF run_after_send_keeps(2)]
  fold_keeps[of futures run_after_send, OF run_after_send_keeps(3)]
  fold_keeps[of calls run_after_send, OF run_after_send_keeps(4)]
  fold_keeps[of intervals run_after_send, OF run_after_send_keeps(5)]
  fold_keeps[of conn_promises run_after_send, OF run_after_send_keeps(6)]
  fold_keeps[of connectingPromise run_after_send, OF run_after_send_keeps(7)]
  fold_keeps[of interceptors run_after_send, OF run_after_send_keeps(8)]
  fold_keeps[of opts run_after_send, OF run_after_send_keeps(9)]
  fold_keeps[of reconnectAttempt run_after_send, OF run_after_send_keeps(10)]

lemma socket_send_frame:
  "snd (socket_send d s) = s\<lparr>sent := sent (snd (socket_send d s))\<rparr>"
  by (simp add: socket_send_def split: option.splits prod.splits ready_state.splits)

lemma send_all_frame:
  "snd (send_all ws s) = s\<lparr>sent := sent (snd (send_all ws s))\<rparr>"
proof (induction ws arbitrary: s)
  case Nil
  show ?case by simp
next
  case (Cons x ws)
  obtain d k where x: "x = Waiter d k" by (cases x)
  obtain e s1 where s: "socket_send d s = (e, s1)" by (cases "socket_send d s")
  from socket_send_frame[of d s] s have s1: "s1 = s\<lparr>sent := sent s1\<rparr>" by simp
  from Cons.IH[of s1] have "snd (send_all ws s1) = s1\<lparr>sent := sent (snd (send_all ws s1))\<rparr>" .
  with s1 have i: "snd (send_all ws s1) = s\<lparr>sent := sent (snd (send_all ws s1))\<rparr>"
    by (metis darkws.update_convs(9) darkws.surjective)
  show ?case using i by (cases e) (auto simp: x s split: prod.splits)
qed

lemma send_all_open:
  "socket s = Some (i, OPEN) \<Longrightarrow>
   send_all ws s =
     (map (\<lambda>x. case x of Waiter d k \<Rightarrow> k) ws,
      s\<lparr>sent := sent s @ map (\<lambda>x. case x of Waiter d k \<Rightarrow> (i, d)) ws\<rparr>)"
proof (induction ws arbitrary: s)
  case Nil
  show ?case by simp
next
  case (Cons x ws)
  obtain d k where x: "x = Waiter d k" by (cases x)
  from Cons.prems have 1: "socket_send d s = (None, s\<lparr>sent := sent s @ [(i, d)]\<rparr>)"
    by (simp add: socket_send_def)
  have "socket (s\<lparr>sent := sent s @ [(i, d)]\<rparr>) = Some (i, OPEN)" using Cons.prems by simp
  from Cons.IH[OF this] show ?case by (simp add: x 1)
qed


lemma send_all_keeps:
  "futures (snd (send_all ws s)) = futures s"
  "requests (snd (send_all ws s)) = requests s"
  "timers (snd (send_all ws s)) = timers s"
  "calls (snd (send_all ws s)) = calls s"
  "console (snd (send_all ws s)) = console s"
  "socket (snd (send_all ws s)) = socket s"
  "intervals (snd (send_all ws s)) = intervals s"
  "conn_promises (snd (send_all ws s)) = conn_promises s"
  "connectingPromise (snd (send_all ws s)) = connectingPromise s"
  "opts (snd (send_all ws s)) = opts s"
  by (subst send_all_frame, simp)+

lemma run_waiters_keeps:
  "futures (run_waiters ws s) = futures s"
  "calls (run_waiters ws s) = calls s"
  "socket (run_waiters ws s) = socket s"
  "intervals (run_waiters ws s) = intervals s"
  "conn_promises (run_waiters ws s) = conn_promises s"
  "connectingPromise (run_waiters ws s) = connectingPromise s"
  "opts (run_waiters ws s) = opts s"
  by (simp_all add: run_waiters_def case_prod_beta fold_run_after_send_keeps send_all_keeps)

lemma run_waiters_open_sent:
  "socket s = Some (i, OPEN) \<Longrightarrow>
   sent (run_waiters ws s) = sent s @ map (\<lambda>x. case x of Waiter d k \<Rightarrow> (i, d)) ws"
  by (simp add: run_waiters_def send_all_open fold_run_after_send_keeps)


lemma private_send_keeps:
  "futures (private_send d k s) = futures s"
  "calls (private_send d k s) = calls s"
  "socket (private_send d k s) = socket s"
  "opts (private_send d k s) = opts s"
  by (simp_all add: private_send_def waitForConnection_def run_waiters_keeps Let_def
      split: option.splits conn_promise.splits)


subsection \<open>Timeout of a request\<close>





text \<open>While the frame of a request waits for the connection, the request has no entry
  and no timer: the timeout runs from the moment the frame has been sent.\<close>

lemma waiting_request_has_no_timer:
  assumes "connectingPromise s = None"
  shows "timers (snd (request w random action data s)) = timers s"
    and "requests (snd (request w random action data s)) = requests s"
    and "sent (snd (request w random action data s)) = sent s"
  using assms by (simp_all add: request_def Let_def private_send_def waitForConnection_def)

subsection \<open>Waiting for the connection\<close>

lemma private_send_fresh:
  assumes "connectingPromise s = None"
  shows "private_send d k s =
           s\<lparr>conn_promises := conn_promises s @ [Waiting [Waiter d k]],
             intervals := intervals s @ [Some (length (conn_promises s))],
             connectingPromise := Some (length (conn_promises s))\<rparr>"
  using assms by (simp add: private_send_def waitForConnection_def Let_def)

lemma private_send_pending:
  assumes "connectingPromise s = Some p" and "p < length (conn_promises s)"
    and "conn_promises s ! p = Waiting ws"
  shows "private_send d k s =
           s\<lparr>conn_promises := (conn_promises s)[p := Waiting (ws @ [Waiter d k])]\<rparr>"
  using assms by (simp add: private_send_def waitForConnection_def Let_def)

lemma poll_not_open: "\<forall>i. socket s \<noteq> Some (i, OPEN) \<Longrightarrow> poll h s = s"
  by (auto simp: poll_def split: option.splits prod.splits ready_state.splits)

lemma poll_cleared: "h < length (intervals s) \<Longrightarrow> intervals s ! h = None \<Longrightarrow> poll h s = s"
  by (simp add: poll_def)

lemma poll_open:
  assumes "polls_for s h p" and "socket s = Some (i, OPEN)"
  shows "poll h s =
           run_waiters (waiters_of s p)
             (s\<lparr>intervals := (intervals s)[h := None],
                conn_promises :=
                  (if p < length (conn_promises s)
                   then (case conn_promises s ! p of
                           Waiting ws \<Rightarrow> (conn_promises s)[p := Opened i]
                         | Opened j \<Rightarrow> conn_promises s)
                   else conn_promises s),
                connectingPromise := None\<rparr>)"
  using assms
  by (auto simp: poll_def polls_for_def waiters_of_def Let_def split: conn_promise.splits)

lemma poll_open_effect:
  assumes "polls_for s h p" and "socket s = Some (i, OPEN)"
  shows "sent (poll h s) = sent s @ map (sent_by i) (waiters_of s p)"
    and "calls (poll h s) = calls s"
    and "intervals (poll h s) = (intervals s)[h := None]"
    and "connectingPromise (poll h s) = None"
    and "socket (poll h s) = socket s"
    and "conn_promises (poll h s) =
           (if p < length (conn_promises s)
            then (case conn_promises s ! p of
                    Waiting ws \<Rightarrow> (conn_promises s)[p := Opened i]
                  | Opened j \<Rightarrow> conn_promises s)
            else conn_promises s)"
proof -
  have m: "(\<lambda>x. case x of Waiter d k \<Rightarrow> (i, d)) = sent_by i"
    by (rule ext) (simp split: waiter.splits)
  show "sent (poll h s) = sent s @ map (sent_by i) (waiters_of s p)"
    by (simp add: poll_open[OF assms] run_waiters_open_sent[where i = i] assms(2) m)
qed (simp_all add: poll_open[OF assms] run_waiters_keeps)


lemma fold_private_send_pending:
  assumes "connectingPromise s = Some p" and "p < length (conn_promises s)"
    and "conn_promises s ! p = Waiting ws"
  shows "fold (\<lambda>c. private_send (fst c) (snd c)) cs s =
           s\<lparr>conn_promises :=
               (conn_promises s)[p := Waiting (ws @ map (\<lambda>c. Waiter (fst c) (snd c)) cs)]\<rparr>"
  using assms
proof (induction cs arbitrary: s ws)
  case Nil
  then have "(conn_promises s)[p := Waiting ws] = conn_promises s"
    by (metis list_update_id)
  then show ?case by simp
next
  case (Cons c cs)
  let ?s1 = "private_send (fst c) (snd c) s"
  have s1: "?s1 = s\<lparr>conn_promises :=
      (conn_promises s)[p := Waiting (ws @ [Waiter (fst c) (snd c)])]\<rparr>"
    using Cons.prems by (rule private_send_pending)
  have "fold (\<lambda>c. private_send (fst c) (snd c)) cs ?s1 =
          ?s1\<lparr>conn_promises := (conn_promises ?s1)
             [p := Waiting ((ws @ [Waiter (fst c) (snd c)]) @
                            map (\<lambda>c. Waiter (fst c) (snd c)) cs)]\<rparr>"
    by (rule Cons.IH) (simp_all add: s1 Cons.prems)
  then show ?case by (simp add: s1)
qed

lemma fold_private_send:
  assumes "wait_consistent s" and "cs \<noteq> []"
  shows "fold (\<lambda>c. private_send (fst c) (snd c)) cs s =
     s\<lparr>conn_promises :=
         (case connectingPromise s of
            None \<Rightarrow> conn_promises s @ [Waiting (map (\<lambda>c. Waiter (fst c) (snd c)) cs)]
          | Some q \<Rightarrow> (conn_promises s)
              [q := Waiting (waiters_of s q @ map (\<lambda>c. Waiter (fst c) (snd c)) cs)]),
       intervals :=
         intervals s @
         (case connectingPromise s of
            None \<Rightarrow> [Some (length (conn_promises s))] | Some q \<Rightarrow> []),
       connectingPromise :=
         Some (case connectingPromise s of None \<Rightarrow> length (conn_promises s) | Some q \<Rightarrow> q)\<rparr>"
proof (cases "connectingPromise s")
  case None
  from assms(2) obtain c cs' where cs: "cs = c # cs'" by (cases cs) auto
  let ?s1 = "private_send (fst c) (snd c) s"
  let ?p = "length (conn_promises s)"
  have s1: "?s1 = s\<lparr>conn_promises := conn_promises s @ [Waiting [Waiter (fst c) (snd c)]],
             intervals := intervals s @ [Some ?p], connectingPromise := Some ?p\<rparr>"
    using None by (rule private_send_fresh)
  have "fold (\<lambda>c. private_send (fst c) (snd c)) cs' ?s1 =
          ?s1\<lparr>conn_promises := (conn_promises ?s1)
             [?p := Waiting ([Waiter (fst c) (snd c)] @
                            map (\<lambda>c. Waiter (fst c) (snd c)) cs')]\<rparr>"
    by (rule fold_private_send_pending) (simp_all add: s1)
  then show ?thesis by (simp add: cs s1 None)
next
  case (Some q)
  with assms(1) have q: "q < length (conn_promises s)"
    and "\<exists>ws. conn_promises s ! q = Waiting ws"
    by (auto simp: wait_consistent_def split: conn_promise.splits)
  then obtain ws where ws: "conn_promises s ! q = Waiting ws" by blast
  then have w: "waiters_of s q = ws" using q by (simp add: waiters_of_def)
  from fold_private_send_pending[OF Some q ws, of cs] show ?thesis
    by (simp add: Some w)
qed

lemma private_send_eq:
  assumes "wait_consistent s"
  shows "private_send d k s =
     s\<lparr>conn_promises :=
         (case connectingPromise s of
            None \<Rightarrow> conn_promises s @ [Waiting [Waiter d k]]
          | Some q \<Rightarrow> (conn_promises s)[q := Waiting (waiters_of s q @ [Waiter d k])]),
       intervals :=
         intervals s @
         (case connectingPromise s of
            None \<Rightarrow> [Some (length (conn_promises s))] | Some q \<Rightarrow> []),
       connectingPromise :=
         Some (case connectingPromise s of None \<Rightarrow> length (conn_promises s) | Some q \<Rightarrow> q)\<rparr>"
  using fold_private_send[OF assms, of "[(d, k)]"] by (simp cong: option.case_cong)


lemma joined_wait:
  assumes c: "wait_consistent s"
    and s1: "s1 =
     s\<lparr>conn_promises :=
         (case connectingPromise s of
            None \<Rightarrow> conn_promises s @ [Waiting new]
          | Some q \<Rightarrow> (conn_promises s)[q := Waiting (waiters_of s q @ new)]),
       intervals :=
         intervals s @
         (case connectingPromise s of
            None \<Rightarrow> [Some (length (conn_promises s))] | Some q \<Rightarrow> []),
       connectingPromise :=
         Some (case connectingPromise s of None \<Rightarrow> length (conn_promises s) | Some q \<Rightarrow> q)\<rparr>"
    and p: "p = (case connectingPromise s of None \<Rightarrow> length (conn_promises s) | Some q \<Rightarrow> q)"
    and old: "old = (case connectingPromise s of None \<Rightarrow> [] | Some q \<Rightarrow> waiters_of s q)"
  shows "connectingPromise s1 = Some p"
    and "p < length (conn_promises s1)"
    and "conn_promises s1 ! p = Waiting (old @ new)"
    and "waiters_of s1 p = old @ new"
    and "wait_consistent s1"
    and "length (conn_promises s1) = (case connectingPromise s of
           None \<Rightarrow> Suc (length (conn_promises s)) | Some q \<Rightarrow> length (conn_promises s))"
proof -
  show 1: "connectingPromise s1 = Some p" by (simp add: s1 p)
  show 2: "p < length (conn_promises s1)"
    using c by (auto simp: s1 p wait_consistent_def split: option.splits)
  show 3: "conn_promises s1 ! p = Waiting (old @ new)"
    using c by (auto simp: s1 p old wait_consistent_def split: option.splits)
  from 2 3 show "waiters_of s1 p = old @ new" by (simp add: waiters_of_def)
  have "Some p \<in> set (intervals s1)"
    using c by (auto simp: s1 p wait_consistent_def split: option.splits)
  with 1 2 3 show "wait_consistent s1" by (simp add: wait_consistent_def)
  show "length (conn_promises s1) = (case connectingPromise s of
           None \<Rightarrow> Suc (length (conn_promises s)) | Some q \<Rightarrow> length (conn_promises s))"
    by (simp add: s1 split: option.splits)
qed

text \<open>
  C9. Callers wait one after the other (each through \<open>_send\<close>) while no poll observes an
  open socket. They all wait on one connection promise \<open>p\<close>, the one already pending or
  else a new one, for which exactly one interval was started; a further
  \<open>waitForConnection\<close> returns \<open>p\<close> and changes nothing. A poll that does not see an
  open socket changes nothing. The poll of \<open>p\<close> that sees the socket \<open>i\<close> open clears its
  interval, which never fires again, resolves \<open>p\<close> with \<open>i\<close>, runs every waiter, each
  sending to that same socket in the order of the calls, and clears \<open>connectingPromise\<close>;
  the next wait creates a new promise, different from \<open>p\<close>, with a new interval.
\<close>

theorem shared_wait:
  assumes "wait_consistent s" and "cs \<noteq> []"
  shows
  "(let s1 = fold (\<lambda>c. private_send (fst c) (snd c)) cs s;
        p = (case connectingPromise s of None \<Rightarrow> length (conn_promises s) | Some q \<Rightarrow> q);
        ws = (case connectingPromise s of None \<Rightarrow> [] | Some q \<Rightarrow> waiters_of s q) @
             map (\<lambda>c. Waiter (fst c) (snd c)) cs
    in connectingPromise s1 = Some p
     \<and> waiters_of s1 p = ws
     \<and> intervals s1 =
         intervals s @ (case connectingPromise s of None \<Rightarrow> [Some p] | Some q \<Rightarrow> [])
     \<and> sent s1 = sent s \<and> socket s1 = socket s
     \<and> waitForConnection s1 = (p, s1)
     \<and> wait_consistent s1
     \<and> (\<forall>h. (\<forall>i. socket s1 \<noteq> Some (i, OPEN)) \<longrightarrow> poll h s1 = s1)
     \<and> (\<forall>h i. polls_for s1 h p \<and> socket s1 = Some (i, OPEN) \<longrightarrow>
          (let s2 = poll h s1
           in intervals s2 = (intervals s1)[h := None]
            \<and> poll h s2 = s2
            \<and> conn_promises s2 = (conn_promises s1)[p := Opened i]
            \<and> sent s2 = sent s1 @ map (sent_by i) ws
            \<and> connectingPromise s2 = None
            \<and> fst (waitForConnection s2) = length (conn_promises s2)
            \<and> fst (waitForConnection s2) \<noteq> p
            \<and> intervals (snd (waitForConnection s2)) =
                intervals s2 @ [Some (length (conn_promises s2))])))"
proof -
  define s1 where "s1 = fold (\<lambda>c. private_send (fst c) (snd c)) cs s"
  define p where
    "p = (case connectingPromise s of None \<Rightarrow> length (conn_promises s) | Some q \<Rightarrow> q)"
  define old where
    "old = (case connectingPromise s of None \<Rightarrow> [] | Some q \<Rightarrow> waiters_of s q)"
  define new where "new = map (\<lambda>c. Waiter (fst c) (snd c)) cs"
  have eq: "s1 =
     s\<lparr>conn_promises :=
         (case connectingPromise s of
            None \<Rightarrow> conn_promises s @ [Waiting new]
          | Some q \<Rightarrow> (conn_promises s)[q := Waiting (waiters_of s q @ new)]),
       intervals :=
         intervals s @
         (case connectingPromise s of
            None \<Rightarrow> [Some (length (conn_promises s))] | Some q \<Rightarrow> []),
       connectingPromise :=
         Some (case connectingPromise s of None \<Rightarrow> length (conn_promises s) | Some q \<Rightarrow> q)\<rparr>"
    unfolding s1_def new_def by (rule fold_private_send[OF assms])
  note j = joined_wait[OF assms(1) eq p_def old_def]
  have a: "connectingPromise s1 = Some p" by (rule j(1))
  have b: "waiters_of s1 p = old @ new" by (rule j(4))
  have c: "intervals s1 =
         intervals s @ (case connectingPromise s of None \<Rightarrow> [Some p] | Some q \<Rightarrow> [])"
    by (simp add: eq p_def split: option.splits)
  have d: "sent s1 = sent s" "socket s1 = socket s" by (simp_all add: eq)
  have e: "waitForConnection s1 = (p, s1)" by (simp add: waitForConnection_def a)
  have f: "wait_consistent s1" by (rule j(5))
  have g: "poll h s1 = s1" if "\<forall>i. socket s1 \<noteq> Some (i, OPEN)" for h
    using that by (rule poll_not_open)
  have k: "intervals (poll h s1) = (intervals s1)[h := None]
            \<and> poll h (poll h s1) = poll h s1
            \<and> conn_promises (poll h s1) = (conn_promises s1)[p := Opened i]
            \<and> sent (poll h s1) = sent s1 @ map (sent_by i) (old @ new)
            \<and> connectingPromise (poll h s1) = None
            \<and> fst (waitForConnection (poll h s1)) = length (conn_promises (poll h s1))
            \<and> fst (waitForConnection (poll h s1)) \<noteq> p
            \<and> intervals (snd (waitForConnection (poll h s1))) =
                intervals (poll h s1) @ [Some (length (conn_promises (poll h s1)))]"
    if pf: "polls_for s1 h p" and op: "socket s1 = Some (i, OPEN)" for h i
  proof -
    note e = poll_open_effect[OF pf op]
    have h: "h < length (intervals s1)" using pf by (simp add: polls_for_def)
    have 1: "intervals (poll h s1) = (intervals s1)[h := None]" by (rule e(3))
    have 2: "poll h (poll h s1) = poll h s1"
      by (rule poll_cleared) (simp_all add: 1 h)
    have 3: "conn_promises (poll h s1) = (conn_promises s1)[p := Opened i]"
      by (simp add: e(6) j(2) j(3))
    have 4: "sent (poll h s1) = sent s1 @ map (sent_by i) (old @ new)"
      by (simp add: e(1) b)
    have 5: "connectingPromise (poll h s1) = None" by (rule e(4))
    have 6: "fst (waitForConnection (poll h s1)) = length (conn_promises (poll h s1))"
      by (simp add: waitForConnection_def 5 Let_def)
    have 7: "fst (waitForConnection (poll h s1)) \<noteq> p"
      using j(2) by (simp add: 6 3)
    have 8: "intervals (snd (waitForConnection (poll h s1))) =
                intervals (poll h s1) @ [Some (length (conn_promises (poll h s1)))]"
      by (simp add: waitForConnection_def 5 Let_def)
    from 1 2 3 4 5 6 7 8 show ?thesis by blast
  qed
  show ?thesis
    unfolding Let_def s1_def[symmetric] p_def[symmetric] old_def[symmetric] new_def[symmetric]
    using a b c d e f g k by blast
qed


text \<open>Two callers on an open connection: one promise, one interval, both texts sent in
  order at the poll, the interval cleared, the next promise is number 1. On a connection
  still connecting the poll changes nothing.\<close>

theorem shared_wait_witness:
  "(let s = set_readyState OPEN (new_DarkWS defaultOptions);
        s1 = fold (\<lambda>c. private_send (fst c) (snd c))
               [(''@|1'', Send_done), (''pong'', Ping_handled)] s;
        s2 = poll 0 s1
    in wait_consistent s \<and> polls_for s1 0 0 \<and> socket s1 = Some (0, OPEN)
     \<and> connectingPromise s1 = Some 0 \<and> intervals s1 = [Some 0]
     \<and> intervals s2 = [None] \<and> poll 0 s2 = s2
     \<and> sent s2 = [(0, ''@|1''), (0, ''pong'')]
     \<and> connectingPromise s2 = None \<and> fst (waitForConnection s2) = 1)
   \<and> (let s = new_DarkWS defaultOptions;
            s1 = fold (\<lambda>c. private_send (fst c) (snd c))
                   [(''@|1'', Send_done), (''pong'', Ping_handled)] s
        in socket s1 = Some (0, CONNECTING) \<and> poll 0 s1 = s1)"
proof -
  define cs where "cs = [(''@|1'', Send_done), (''pong'', Ping_handled)]"
  define b where "b = new_DarkWS defaultOptions"
  define a where "a = set_readyState OPEN b"
  define a1 where "a1 = fold (\<lambda>c. private_send (fst c) (snd c)) cs a"
  define b1 where "b1 = fold (\<lambda>c. private_send (fst c) (snd c)) cs b"
  have cs: "cs \<noteq> []" by (simp add: cs_def)
  have a: "connectingPromise a = None" "conn_promises a = []" "intervals a = []"
    "socket a = Some (0, OPEN)" "sent a = []"
    by (simp_all add: a_def b_def set_readyState_def new_DarkWS_def connect_def)
  have wa: "wait_consistent a" by (simp add: wait_consistent_def a)
  from shared_wait[OF wa cs]
  have ta: "connectingPromise a1 = Some 0 \<and> intervals a1 = [Some 0] \<and> sent a1 = []
     \<and> socket a1 = Some (0, OPEN) \<and> length (conn_promises a1) = 1
     \<and> (\<forall>h i. polls_for a1 h 0 \<and> socket a1 = Some (i, OPEN) \<longrightarrow>
            intervals (poll h a1) = (intervals a1)[h := None]
          \<and> poll h (poll h a1) = poll h a1
          \<and> conn_promises (poll h a1) = (conn_promises a1)[0 := Opened i]
          \<and> sent (poll h a1) = sent a1 @ map (sent_by i) (map (\<lambda>c. Waiter (fst c) (snd c)) cs)
          \<and> connectingPromise (poll h a1) = None
          \<and> fst (waitForConnection (poll h a1)) = length (conn_promises (poll h a1)))"
    by (simp add: Let_def a a1_def fold_private_send[OF wa cs])
  then have pa: "polls_for a1 0 0" by (simp add: polls_for_def)
  with ta have ra: "intervals (poll 0 a1) = [None] \<and> poll 0 (poll 0 a1) = poll 0 a1
     \<and> sent (poll 0 a1) = [(0, ''@|1''), (0, ''pong'')]
     \<and> connectingPromise (poll 0 a1) = None \<and> fst (waitForConnection (poll 0 a1)) = 1"
    by (auto simp: cs_def)
  have b: "connectingPromise b = None" "socket b = Some (0, CONNECTING)"
    by (simp_all add: b_def new_DarkWS_def connect_def)
  have wb: "wait_consistent b" by (simp add: wait_consistent_def b)
  from shared_wait[OF wb cs]
  have tb: "socket b1 = Some (0, CONNECTING)
     \<and> (\<forall>h. (\<forall>i. socket b1 \<noteq> Some (i, OPEN)) \<longrightarrow> poll h b1 = b1)"
    by (simp add: Let_def b b1_def)
  then have rb: "poll 0 b1 = b1" by simp
  show ?thesis
    unfolding Let_def a_def[symmetric] b_def[symmetric] cs_def[symmetric] a1_def[symmetric]
      b1_def[symmetric]
    using wa pa ta ra tb rb by simp
qed

lemma poll_out_of_range: "\<not> h < length (intervals s) \<Longrightarrow> poll h s = s"
  by (simp add: poll_def)

text \<open>
  C8. On the inbound message \<open>ping\<close>, whatever the environment (the parser and the handlers
  are not consulted): the handler ends normally; no handler is called, nothing is printed,
  no request, promise or timer changes; one waiter sending \<open>pong\<close> joins the pending
  connection promise, after the waiters already there. When the poll of that promise
  finds the socket open, what is sent is what would have been sent without the \<open>ping\<close>,
  followed by exactly one \<open>pong\<close>, and still no handler is called.
\<close>

theorem ping_keepalive:
  assumes "wait_consistent s"
  shows
  "(let r = onmessage w ''ping'' s; s1 = snd r;
        p = (case connectingPromise s of None \<Rightarrow> length (conn_promises s) | Some q \<Rightarrow> q);
        old = (case connectingPromise s of None \<Rightarrow> [] | Some q \<Rightarrow> waiters_of s q)
    in fst r = None \<and> r = onmessage w' ''ping'' s
     \<and> calls s1 = calls s \<and> console s1 = console s \<and> requests s1 = requests s
     \<and> futures s1 = futures s \<and> timers s1 = timers s \<and> sent s1 = sent s
     \<and> socket s1 = socket s
     \<and> connectingPromise s1 = Some p
     \<and> waiters_of s1 p = old @ [Waiter ''pong'' Ping_handled]
     \<and> wait_consistent s1
     \<and> (\<forall>h i. polls_for s1 h p \<and> socket s = Some (i, OPEN) \<longrightarrow>
           sent (poll h s1) = sent (poll h s) @ [(i, ''pong'')]
         \<and> calls (poll h s1) = calls s))"
proof -
  define s1 where "s1 = private_send ''pong'' Ping_handled s"
  define p where
    "p = (case connectingPromise s of None \<Rightarrow> length (conn_promises s) | Some q \<Rightarrow> q)"
  define old where
    "old = (case connectingPromise s of None \<Rightarrow> [] | Some q \<Rightarrow> waiters_of s q)"
  have r: "onmessage w ''ping'' s = (None, s1)" "onmessage w' ''ping'' s = (None, s1)"
    by (simp_all add: onmessage_def s1_def)
  have eq: "s1 =
     s\<lparr>conn_promises :=
         (case connectingPromise s of
            None \<Rightarrow> conn_promises s @ [Waiting [Waiter ''pong'' Ping_handled]]
          | Some q \<Rightarrow> (conn_promises s)
              [q := Waiting (waiters_of s q @ [Waiter ''pong'' Ping_handled])]),
       intervals :=
         intervals s @
         (case connectingPromise s of
            None \<Rightarrow> [Some (length (conn_promises s))] | Some q \<Rightarrow> []),
       connectingPromise :=
         Some (case connectingPromise s of None \<Rightarrow> length (conn_promises s) | Some q \<Rightarrow> q)\<rparr>"
    unfolding s1_def by (rule private_send_eq[OF assms])
  note j = joined_wait[OF assms eq p_def old_def]
  have a: "calls s1 = calls s" "console s1 = console s" "requests s1 = requests s"
    "futures s1 = futures s" "timers s1 = timers s" "sent s1 = sent s" "socket s1 = socket s"
    by (simp_all add: eq)
  have k: "sent (poll h s1) = sent (poll h s) @ [(i, ''pong'')] \<and> calls (poll h s1) = calls s"
    if pf: "polls_for s1 h p" and op: "socket s = Some (i, OPEN)" for h i
  proof -
    from op have op1: "socket s1 = Some (i, OPEN)" by (simp add: a)
    note e = poll_open_effect[OF pf op1]
    have 1: "sent (poll h s1) = sent s @ map (sent_by i) old @ [(i, ''pong'')]"
      by (simp add: e(1) j(4) a)
    have 2: "sent (poll h s) = sent s @ map (sent_by i) old"
    proof (cases "connectingPromise s")
      case None
      then have o: "old = []" and p: "p = length (conn_promises s)"
        by (simp_all add: old_def p_def)
      from None have iv: "intervals s1 = intervals s @ [Some p]" by (simp add: eq p)
      show ?thesis
      proof (cases "h < length (intervals s)")
        case True
        with pf iv have "polls_for s h p" by (simp add: polls_for_def nth_append)
        from poll_open_effect(1)[OF this op] show ?thesis
          by (simp add: o waiters_of_def p)
      next
        case False
        then show ?thesis by (simp add: poll_out_of_range o)
      qed
    next
      case (Some q)
      then have "intervals s1 = intervals s" and "p = q" and "old = waiters_of s q"
        by (simp_all add: eq p_def old_def)
      with pf have "polls_for s h q" by (simp add: polls_for_def)
      from poll_open_effect(1)[OF this op] show ?thesis
        by (simp add: \<open>old = waiters_of s q\<close>)
    qed
    from 1 2 e(2) a(1) show ?thesis by simp
  qed
  show ?thesis
    unfolding Let_def r snd_conv fst_conv p_def[symmetric] old_def[symmetric]
    using a j(1) j(4) j(5) k by blast
qed


text \<open>A \<open>ping\<close> on an open connection with no wait pending, and one with a \<open>send\<close>
  already waiting: the poll sends \<open>pong\<close>, once, after what was waiting.\<close>

theorem ping_keepalive_witness:
  "(let s = set_readyState OPEN (new_DarkWS defaultOptions);
        s1 = snd (onmessage example_world ''ping'' s)
    in wait_consistent s \<and> polls_for s1 0 0 \<and> socket s = Some (0, OPEN)
     \<and> calls s1 = [] \<and> sent s1 = [] \<and> sent (poll 0 s1) = [(0, ''pong'')])
   \<and> (let s = send example_world (JNum 1) (set_readyState OPEN (new_DarkWS defaultOptions));
            s1 = snd (onmessage example_world ''ping'' s)
        in wait_consistent s \<and> polls_for s1 0 0 \<and> socket s = Some (0, OPEN)
         \<and> sent (poll 0 s) = [(0, ''@|1'')]
         \<and> sent (poll 0 s1) = [(0, ''@|1''), (0, ''pong'')])"
proof -
  define a where "a = set_readyState OPEN (new_DarkWS defaultOptions)"
  define a1 where "a1 = snd (onmessage example_world ''ping'' a)"
  define b where "b = send example_world (JNum 1) a"
  define b1 where "b1 = snd (onmessage example_world ''ping'' b)"
  have a: "connectingPromise a = None" "conn_promises a = []" "intervals a = []"
    "socket a = Some (0, OPEN)" "sent a = []" "calls a = []"
    by (simp_all add: a_def set_readyState_def new_DarkWS_def connect_def)
  have wa: "wait_consistent a" by (simp add: wait_consistent_def a)
  have a1: "polls_for a1 0 0"
    by (simp add: a1_def onmessage_def private_send_fresh a polls_for_def)
  have pa: "poll 0 a = a" by (simp add: poll_def a)
  from ping_keepalive[OF wa, of example_world example_world]
  have ta: "calls a1 = [] \<and> sent a1 = []
      \<and> (\<forall>h i. polls_for a1 h 0 \<and> socket a = Some (i, OPEN) \<longrightarrow>
             sent (poll h a1) = sent (poll h a) @ [(i, ''pong'')])"
    by (simp add: Let_def a a1_def)
  with a1 a pa have ra: "sent (poll 0 a1) = [(0, ''pong'')]" by auto
  have b: "connectingPromise b = Some 0" "conn_promises b = [Waiting [Waiter ''@|1'' Send_done]]"
    "intervals b = [Some 0]" "socket b = Some (0, OPEN)" "sent b = []"
    by (simp_all add: b_def send_def private_send_fresh a example_world_def)
  have wb: "wait_consistent b" by (simp add: wait_consistent_def b)
  have b1: "polls_for b1 0 0"
    by (simp add: b1_def onmessage_def private_send_pending[where ws = "[Waiter ''@|1'' Send_done]"]
        b polls_for_def)
  have pb: "sent (poll 0 b) = [(0, ''@|1'')]"
    using poll_open_effect(1)[of b 0 0 0] by (simp add: polls_for_def b waiters_of_def)
  from ping_keepalive[OF wb, of example_world example_world]
  have tb: "\<forall>h i. polls_for b1 h 0 \<and> socket b = Some (i, OPEN) \<longrightarrow>
             sent (poll h b1) = sent (poll h b) @ [(i, ''pong'')]"
    by (simp add: Let_def b b1_def)
  with b1 b pb have rb: "sent (poll 0 b1) = [(0, ''@|1''), (0, ''pong'')]" by auto
  show ?thesis
    unfolding Let_def a_def[symmetric] b_def[symmetric] a1_def[symmetric] b1_def[symmetric]
    using wa a1 a ta ra wb b1 b pb rb by simp
qed

subsection \<open>Every state of a client has a well-formed wait\<close>

lemma wait_consistent_iff:
  "wait_consistent s \<longleftrightarrow>
     (\<forall>p. connectingPromise s = Some p \<longrightarrow>
        p < length (conn_promises s) \<and> (\<exists>ws. conn_promises s ! p = Waiting ws)
        \<and> Some p \<in> set (intervals s))"
  by (auto simp: wait_consistent_def split: option.splits conn_promise.splits)

lemma wait_consistent_cong:
  assumes "connectingPromise s' = connectingPromise s"
    and "conn_promises s' = conn_promises s" and "intervals s' = intervals s"
  shows "wait_consistent s' = wait_consistent s"
  by (simp add: wait_consistent_def assms cong: option.case_cong)

lemma private_send_consistent: "wait_consistent s \<Longrightarrow> wait_consistent (private_send d k s)"
  by (rule joined_wait(5)[OF _ private_send_eq refl refl])

lemma poll_consistent: "wait_consistent s \<Longrightarrow> wait_consistent (poll h s)"
proof -
  assume c: "wait_consistent s"
  show ?thesis
  proof (cases "\<exists>p i. polls_for s h p \<and> socket s = Some (i, OPEN)")
    case True
    then obtain p i where "polls_for s h p" "socket s = Some (i, OPEN)" by blast
    from poll_open_effect(4)[OF this] show ?thesis by (simp add: wait_consistent_def)
  next
    case False
    have "poll h s = s"
    proof (cases "\<exists>i. socket s = Some (i, OPEN)")
      case True
      with False have "\<not> h < length (intervals s) \<or> intervals s ! h = None"
        by (auto simp: polls_for_def)
      then show ?thesis by (auto simp: poll_def)
    next
      case False
      then show ?thesis by (simp add: poll_not_open)
    qed
    with c show ?thesis by simp
  qed
qed

lemma settle_keeps:
  "connectingPromise (settle p v s) = connectingPromise s"
  "conn_promises (settle p v s) = conn_promises s"
  "intervals (settle p v s) = intervals s"
  by (simp_all add: settle_def)

lemma call_resolve_keeps:
  "connectingPromise (call_resolve res data s) = connectingPromise s"
  "conn_promises (call_resolve res data s) = conn_promises s"
  "intervals (call_resolve res data s) = intervals s"
  "interceptors (call_resolve res data s) = interceptors s"
  by (cases res; simp add: settle_def clearTimeout_def)+

lemma settle_request_keeps:
  "connectingPromise (snd (settle_request key data s)) = connectingPromise s"
  "conn_promises (snd (settle_request key data s)) = conn_promises s"
  "intervals (snd (settle_request key data s)) = intervals s"
  "interceptors (snd (settle_request key data s)) = interceptors s"
  by (auto simp: settle_request_def call_reject_def call_resolve_keeps settle_def Let_def
      split: lookup.splits sum.splits resolver.splits bool.splits)

lemma try_message_keeps:
  "connectingPromise (snd (try_message w t s)) = connectingPromise s"
  "conn_promises (snd (try_message w t s)) = conn_promises s"
  "intervals (snd (try_message w t s)) = intervals s"
proof -
  have e: "and_then (settle_request key data s) f =
        (case fst (settle_request key data s) of
           None \<Rightarrow> f (snd (settle_request key data s))
         | Some e \<Rightarrow> (Some e, snd (settle_request key data s)))" for key data f
    by (cases "settle_request key data s") (simp add: and_then_def split: option.splits)
  show "connectingPromise (snd (try_message w t s)) = connectingPromise s"
    "conn_promises (snd (try_message w t s)) = conn_promises s"
    "intervals (snd (try_message w t s)) = intervals s"
    by (simp_all add: try_message_def callInterceptors_eq e settle_request_keeps Let_def
        split: option.splits)
qed

lemma onmessage_consistent:
  assumes "wait_consistent s"
  shows "wait_consistent (snd (onmessage w t s))"
proof (cases "t = ''ping''")
  case True
  with assms show ?thesis by (simp add: onmessage_def private_send_consistent)
next
  case False
  obtain e s1 where t: "try_message w t s = (e, s1)" by (cases "try_message w t s")
  from try_message_keeps[of w t s] t
  have k: "connectingPromise s1 = connectingPromise s" "conn_promises s1 = conn_promises s"
    "intervals s1 = intervals s"
    by simp_all
  have "connectingPromise (snd (onmessage w t s)) = connectingPromise s"
    "conn_promises (snd (onmessage w t s)) = conn_promises s"
    "intervals (snd (onmessage w t s)) = intervals s"
    using False by (cases e; simp add: onmessage_def t k caught_keeps)+
  from wait_consistent_cong[OF this] assms show ?thesis by simp
qed

lemma fire_timer_consistent:
  assumes "wait_consistent s"
  shows "wait_consistent (fire_timer h s)"
proof -
  have "connectingPromise (fire_timer h s) = connectingPromise s"
    "conn_promises (fire_timer h s) = conn_promises s"
    "intervals (fire_timer h s) = intervals s"
    by (simp_all add: fire_timer_def connect_def settle_keeps Let_def
        split: option.splits prod.splits timer_action.splits)
  from wait_consistent_cong[OF this] assms show ?thesis by simp
qed

lemma onclose_keeps_wait:
  "connectingPromise (snd (onclose w wasClean code reason s)) = connectingPromise s"
  "conn_promises (snd (onclose w wasClean code reason s)) = conn_promises s"
  "intervals (snd (onclose w wasClean code reason s)) = intervals s"
  by (simp_all add: onclose_def callInterceptors_eq debug_def and_then_def setTimeout_def
      Let_def split: option.splits)

lemma reachable_wait_consistent: "reachable w s \<Longrightarrow> wait_consistent s"
proof (induction rule: reachable.induct)
  case (created os)
  show ?case by (simp add: wait_consistent_def new_DarkWS_def connect_def)
next
  case (transport s r)
  have "wait_consistent (set_readyState r s) = wait_consistent s"
    by (rule wait_consistent_cong) (simp_all add: set_readyState_def)
  with transport.IH show ?case by simp
next
  case (opened s)
  have "wait_consistent (snd (onopen w s)) = wait_consistent s"
    by (rule wait_consistent_cong) (simp_all add: onopen_eq debug_def)
  with opened.IH show ?case by simp
next
  case (closed s wasClean code reason)
  have "wait_consistent (snd (onclose w wasClean code reason s)) = wait_consistent s"
    by (rule wait_consistent_cong) (rule onclose_keeps_wait)+
  with closed.IH show ?case by simp
next
  case (errored s)
  have "wait_consistent (snd (onerror w s)) = wait_consistent s"
    by (rule wait_consistent_cong) (simp_all add: onerror_def callInterceptors_eq debug_def)
  with errored.IH show ?case by simp
next
  case (received s t)
  from received.IH show ?case by (rule onmessage_consistent)
next
  case (tick s h)
  from tick.IH show ?case by (rule poll_consistent)
next
  case (timer s h)
  from timer.IH show ?case by (rule fire_timer_consistent)
next
  case (sending s data)
  from sending.IH show ?case by (simp add: send_def private_send_consistent)
next
  case (requesting s random action data)
  have "wait_consistent (s\<lparr>futures := futures s @ [Pending]\<rparr>) = wait_consistent s"
    by (rule wait_consistent_cong) simp_all
  with requesting.IH show ?case by (simp add: request_def Let_def private_send_consistent)
next
  case (subscribing s event h)
  have "wait_consistent (intercept event h s) = wait_consistent s"
    by (rule wait_consistent_cong) (simp_all add: intercept_def)
  with subscribing.IH show ?case by simp
next
  case (unsubscribing s event h)
  have "wait_consistent (unsubscribe event h s) = wait_consistent s"
    by (rule wait_consistent_cong) (simp_all add: unsubscribe_def Let_def)
  with unsubscribing.IH show ?case by simp
qed

subsection \<open>A request and its timeout\<close>


lemma request_eq:
  "request w random action data s =
     (length (futures s),
      private_send (request_frame w (generateKey random) action data)
        (Register_request (generateKey random) (length (futures s)))
        (s\<lparr>futures := futures s @ [Pending]\<rparr>))"
  by (simp add: request_def Let_def)






subsection \<open>The attempt counter is never reset\<close>

lemma send_all_counter: "reconnectAttempt (snd (send_all ws s)) = reconnectAttempt s"
  by (subst send_all_frame) simp

lemma run_waiters_counter: "reconnectAttempt (run_waiters ws s) = reconnectAttempt s"
  by (simp add: run_waiters_def case_prod_beta fold_run_after_send_keeps send_all_counter)

lemma private_send_counter: "reconnectAttempt (private_send d k s) = reconnectAttempt s"
  by (simp add: private_send_def waitForConnection_def run_waiters_counter Let_def
      split: option.splits conn_promise.splits)

lemma poll_counter:
  "reconnectAttempt (poll h s) = reconnectAttempt s" "opts (poll h s) = opts s"
proof -
  have "reconnectAttempt (poll h s) = reconnectAttempt s \<and> opts (poll h s) = opts s"
  proof (cases "\<exists>p i. polls_for s h p \<and> socket s = Some (i, OPEN)")
    case True
    then obtain p i where "polls_for s h p" "socket s = Some (i, OPEN)" by blast
    from poll_open[OF this] show ?thesis
      by (simp add: run_waiters_counter run_waiters_keeps)
  next
    case False
    have "poll h s = s"
    proof (cases "\<exists>i. socket s = Some (i, OPEN)")
      case True
      with False have "\<not> h < length (intervals s) \<or> intervals s ! h = None"
        by (auto simp: polls_for_def)
      then show ?thesis by (auto simp: poll_def)
    next
      case False
      then show ?thesis by (simp add: poll_not_open)
    qed
    then show ?thesis by simp
  qed
  then show "reconnectAttempt (poll h s) = reconnectAttempt s" "opts (poll h s) = opts s"
    by simp_all
qed

lemma settle_request_counter:
  "reconnectAttempt (snd (settle_request key data s)) = reconnectAttempt s"
  "opts (snd (settle_request key data s)) = opts s"
proof -
  have r: "reconnectAttempt (call_resolve res data s) = reconnectAttempt s"
    "opts (call_resolve res data s) = opts s" for res
    by (cases res; simp add: settle_def clearTimeout_def)+
  show "reconnectAttempt (snd (settle_request key data s)) = reconnectAttempt s"
    "opts (snd (settle_request key data s)) = opts s"
    by (auto simp: settle_request_def call_reject_def r settle_def Let_def
        split: lookup.splits sum.splits resolver.splits bool.splits)
qed

lemma onmessage_counter:
  "reconnectAttempt (snd (onmessage w m s)) = reconnectAttempt s"
  "opts (snd (onmessage w m s)) = opts s"
proof -
  have e: "and_then (settle_request key data s) f =
        (case fst (settle_request key data s) of
           None \<Rightarrow> f (snd (settle_request key data s))
         | Some e \<Rightarrow> (Some e, snd (settle_request key data s)))" for key data f
    by (cases "settle_request key data s") (simp add: and_then_def split: option.splits)
  have t: "reconnectAttempt (snd (try_message w m s)) = reconnectAttempt s"
    "opts (snd (try_message w m s)) = opts s"
    by (simp_all add: try_message_def callInterceptors_eq e settle_request_counter Let_def
        split: option.splits)
  obtain x s1 where x: "try_message w m s = (x, s1)" by (cases "try_message w m s")
  with t have s1: "reconnectAttempt s1 = reconnectAttempt s" "opts s1 = opts s" by simp_all
  show "reconnectAttempt (snd (onmessage w m s)) = reconnectAttempt s"
    "opts (snd (onmessage w m s)) = opts s"
    by (cases x; simp add: onmessage_def x s1 caught_keeps private_send_counter
        private_send_keeps)+
qed

lemma fire_timer_counter:
  "reconnectAttempt (fire_timer h s) = reconnectAttempt s" "opts (fire_timer h s) = opts s"
  by (simp_all add: fire_timer_def connect_def settle_def Let_def
      split: option.splits prod.splits timer_action.splits)

lemma onclose_clean_counter:
  "reconnectAttempt (snd (onclose w True code reason s)) = reconnectAttempt s"
  by (simp add: onclose_def callInterceptors_eq debug_def and_then_def)

lemma later_counter:
  "later w s n t \<Longrightarrow> reconnectAttempt t = reconnectAttempt s + int n \<and> opts t = opts s"
proof (induction rule: later.induct)
  case now
  show ?case by simp
next
  case (transport n t r)
  then show ?case by (simp add: set_readyState_def)
next
  case (opened n t)
  then show ?case by (simp add: onopen_keeps)
next
  case (retried n t code reason)
  from retried.IH onclose_unclean_retry(2)[OF retried.hyps(2,3), of w code reason]
  show ?case by (simp add: onclose_keeps_configuration)
next
  case (closed n t wasClean code reason)
  have "reconnectAttempt (snd (onclose w wasClean code reason t)) = reconnectAttempt t"
  proof (cases wasClean)
    case True
    then show ?thesis by (simp add: onclose_clean_counter)
  next
    case False
    with closed.hyps(2)
    have "\<not> (reconnect (opts t) \<and> reconnectAttempt t < reconnectAttempts (opts t))"
      by simp
    from onclose_unclean_no_retry(2)[OF this, of w code reason] False show ?thesis by simp
  qed
  with closed.IH show ?case by (simp add: onclose_keeps_configuration)
next
  case (errored n t)
  then show ?case by (simp add: onerror_def callInterceptors_eq debug_def)
next
  case (received n t m)
  then show ?case by (simp add: onmessage_counter)
next
  case (tick n t h)
  then show ?case by (simp add: poll_counter)
next
  case (timer n t h)
  then show ?case by (simp add: fire_timer_counter)
next
  case (sending n t data)
  then show ?case by (simp add: send_def private_send_counter private_send_keeps)
next
  case (requesting n t random action data)
  then show ?case by (simp add: request_eq private_send_counter private_send_keeps)
next
  case (subscribing n t event h)
  then show ?case by (simp add: intercept_def)
next
  case (unsubscribing n t event h)
  then show ?case by (simp add: unsubscribe_def Let_def)
qed

text \<open>
  C1, amended. No handler, timer, poll or public method resets the attempt counter.
  Whatever a client goes through from a state \<open>s\<close> to a state \<open>t\<close>, opens included, the
  counter in \<open>t\<close> is the counter in \<open>s\<close> plus the number of unclean closes in between
  that scheduled a retry, and the options are unchanged; the open handler and
  \<open>connect()\<close> in particular leave the counter as it is. So when the connection then
  drops and a retry is due, the counter, and the number the \<open>reconnect\<close> handlers are
  called with, is one above that count: the numbering continues, it does not restart
  at 1.
\<close>

theorem attempt_counter_never_reset:
  assumes "later w s n t"
  shows "reconnectAttempt t = reconnectAttempt s + int n \<and> opts t = opts s
   \<and> reconnectAttempt (snd (onopen w t)) = reconnectAttempt t
   \<and> reconnectAttempt (connect t) = reconnectAttempt t
   \<and> (reconnect (opts t) \<and> reconnectAttempt t < reconnectAttempts (opts t) \<longrightarrow>
        (let t' = snd (onclose w False code reason t);
             k = reconnectAttempt s + int n + 1
         in reconnectAttempt t' = k
          \<and> take (length (invoked w E_reconnect (Attempt k) (interceptors t E_reconnect)))
               (drop (length (calls t)) (calls t')) =
             map (\<lambda>h. (h, E_reconnect, Attempt k))
               (invoked w E_reconnect (Attempt k) (interceptors t E_reconnect))))"
proof -
  from later_counter[OF assms]
  have a: "reconnectAttempt t = reconnectAttempt s + int n" and b: "opts t = opts s"
    by simp_all
  have c: "reconnectAttempt (snd (onopen w t)) = reconnectAttempt t"
    by (simp add: onopen_keeps)
  have d: "reconnectAttempt (connect t) = reconnectAttempt t"
    by (simp add: connect_keeps)
  have e: "(let t' = snd (onclose w False code reason t);
             k = reconnectAttempt s + int n + 1
         in reconnectAttempt t' = k
          \<and> take (length (invoked w E_reconnect (Attempt k) (interceptors t E_reconnect)))
               (drop (length (calls t)) (calls t')) =
             map (\<lambda>h. (h, E_reconnect, Attempt k))
               (invoked w E_reconnect (Attempt k) (interceptors t E_reconnect)))"
    if r: "reconnect (opts t)" and l: "reconnectAttempt t < reconnectAttempts (opts t)"
    using onclose_unclean_retry[OF r l, of w code reason] by (simp add: Let_def a)
  from a b c d e show ?thesis by blast
qed

text \<open>Handler 5 on \<open>reconnect\<close>. The connection drops and a retry is scheduled, the
  timer fires, the new socket opens: one retry since the start, and the counter is 1.
  The connection drops again: the counter is 2 and the handler is called with 2.\<close>

theorem attempt_counter_never_reset_witness:
  "(let s = intercept E_reconnect 5 (new_DarkWS defaultOptions);
        t = snd (onopen example_world (set_readyState OPEN (fire_timer 0
              (snd (onclose example_world False 1006 [] s)))));
        t' = snd (onclose example_world False 1006 [] t)
    in later example_world s 1 t
     \<and> reconnectAttempt s = 0 \<and> reconnectAttempt t = 1
     \<and> reconnect (opts t) \<and> reconnectAttempt t < reconnectAttempts (opts t)
     \<and> reconnectAttempt t' = 2
     \<and> take 1 (drop (length (calls t)) (calls t')) = [(5, E_reconnect, Attempt 2)])"
proof -
  define s where "s = intercept E_reconnect 5 (new_DarkWS defaultOptions)"
  define s1 where "s1 = snd (onclose example_world False 1006 [] s)"
  define t where
    "t = snd (onopen example_world (set_readyState OPEN (fire_timer 0 s1)))"
  have s: "reconnect (opts s)" "reconnectAttempt s = 0" "reconnectAttempts (opts s) = 120"
    "interceptors s E_reconnect = [5]"
    by (simp_all add: s_def intercept_def new_DarkWS_def connect_def defaultOptions_def)
  have "later example_world s (Suc 0) s1"
    unfolding s1_def by (rule later.retried[OF later.now]) (simp_all add: s)
  then have l: "later example_world s 1 t"
    unfolding t_def by (simp add: later.opened later.transport later.timer)
  have i1: "interceptors s1 = interceptors s"
    by (simp add: s1_def onclose_keeps_configuration)
  have "interceptors (fire_timer 0 s1) = interceptors s1"
    by (simp add: fire_timer_def connect_def settle_def Let_def
        split: option.splits prod.splits timer_action.splits)
  with i1 have i: "interceptors t E_reconnect = [5]"
    by (simp add: t_def onopen_keeps set_readyState_def s)
  have b: "behaviour example_world 5 E_reconnect (Attempt 2) = None"
    by (simp add: example_world_def)
  from attempt_counter_never_reset[OF l, of 1006 "[]"]
  have "reconnectAttempt t = 1 \<and> reconnect (opts t)
     \<and> reconnectAttempt t < reconnectAttempts (opts t)
     \<and> reconnectAttempt (snd (onclose example_world False 1006 [] t)) = 2
     \<and> take 1 (drop (length (calls t))
          (calls (snd (onclose example_world False 1006 [] t)))) =
        [(5, E_reconnect, Attempt 2)]"
    by (simp add: s i b Let_def)
  with l s(2) show ?thesis
    unfolding Let_def s_def[symmetric] s1_def[symmetric] t_def[symmetric] by simp
qed

end
